theory Spec2Isabelle
  imports Main
begin

section \<open>The connection registry and presence broadcasts (socket module)\<close>

text \<open>
  The socket module keeps \<open>connectedUsers\<close>, a JavaScript \<open>Map\<close> from an actor key
  (\<open>u:<id>\<close> or \<open>c:<id>\<close>) to the \<open>Set\<close> of socket ids registered under that key.
  A \<open>Map\<close> and a \<open>Set\<close> iterate in insertion order, so the map is an association list
  and each set a list without repetitions. Socket ids, actor types and actor ids are
  strings; the empty string stands for every falsy value of a payload field.
\<close>

type_synonym socket_id = string

type_synonym registry = "(string \<times> socket_id list) list"

text \<open>The argument of a \<open>register\<close> event: a plain string, an object read through its
  \<open>type\<close> and \<open>id\<close> fields, or anything else (null, a number, ...).\<close>

datatype payload = PString string | PObject string string | POther

record actor_info =
  actorKey :: string
  actorType :: string
  actorId :: string

text \<open>The broadcasts of \<open>ioInstance.emit\<close>, each with the \<open>type\<close> and \<open>id\<close> it carries.\<close>

datatype presence_event = UserOnline string string | UserOffline string string

record socket_state =
  connectedUsers :: registry
  socketActor :: "socket_id \<Rightarrow> actor_info option"
  broadcasts :: "presence_event list"

definition keyForActor :: "string \<Rightarrow> string \<Rightarrow> string" where
  "keyForActor ty ident = (if ty = ''company'' then ''c'' else ''u'') @ '':'' @ ident"

text \<open>Lines 29--43 of the register handler: the key, type and id read from the payload.
  The key always contains a colon, so the handler's test \<open>if (key)\<close> fails exactly when
  no branch assigned it.\<close>

fun actor_of_payload :: "payload \<Rightarrow> actor_info option" where
  "actor_of_payload (PString s) =
     Some \<lparr>actorKey = keyForActor ''user'' s, actorType = ''user'', actorId = s\<rparr>"
| "actor_of_payload (PObject ty ident) =
     (if ident \<noteq> [] \<and> ty \<noteq> []
      then Some \<lparr>actorKey = keyForActor ty ident, actorType = ty, actorId = ident\<rparr>
      else None)"
| "actor_of_payload POther = None"

text \<open>\<open>Set.add\<close> and \<open>Set.delete\<close> on a set kept as a list.\<close>

definition set_add :: "socket_id \<Rightarrow> socket_id list \<Rightarrow> socket_id list" where
  "set_add s ss = (if s \<in> set ss then ss else ss @ [s])"

definition set_delete :: "socket_id \<Rightarrow> socket_id list \<Rightarrow> socket_id list" where
  "set_delete s ss = removeAll s ss"

text \<open>\<open>connectedUsers.get(key).add(socket.id)\<close> on the entry of \<open>key\<close>.\<close>

fun add_to_entry :: "string \<Rightarrow> socket_id \<Rightarrow> registry \<Rightarrow> registry" where
  "add_to_entry k s [] = []"
| "add_to_entry k s ((k', ss) # m) =
     (if k' = k then (k', set_add s ss) # m else (k', ss) # add_to_entry k s m)"

text \<open>Lines 47--48: create the entry when the key is new, then add the socket.\<close>

definition add_socket :: "string \<Rightarrow> socket_id \<Rightarrow> registry \<Rightarrow> registry" where
  "add_socket k s m =
     add_to_entry k s (if map_of m k = None then m @ [(k, [])] else m)"

definition register :: "socket_id \<Rightarrow> payload \<Rightarrow> socket_state \<Rightarrow> socket_state" where
  "register s p st =
     (case actor_of_payload p of
        None \<Rightarrow> st
      | Some a \<Rightarrow>
          st\<lparr>connectedUsers := add_socket (actorKey a) s (connectedUsers st),
             socketActor := (socketActor st)(s \<mapsto> a),
             broadcasts := broadcasts st @ [UserOnline (actorType a) (actorId a)]\<rparr>)"

text \<open>Line 144: the test that guards the offline broadcast for the entry of key \<open>k\<close>.\<close>

definition offline_for :: "actor_info option \<Rightarrow> string \<Rightarrow> presence_event list" where
  "offline_for a k =
     (case a of
        None \<Rightarrow> []
      | Some i \<Rightarrow>
          if k = actorKey i \<and> actorType i \<noteq> [] \<and> actorId i \<noteq> []
          then [UserOffline (actorType i) (actorId i)] else [])"

text \<open>Lines 138--152: the loop over all entries. It returns the entries that remain and
  the offline events emitted, in order.\<close>

fun disconnect_loop ::
  "socket_id \<Rightarrow> actor_info option \<Rightarrow> registry \<Rightarrow> registry \<times> presence_event list" where
  "disconnect_loop s a [] = ([], [])"
| "disconnect_loop s a ((k, ss) # m) =
     (let ss' = set_delete s ss; r = disconnect_loop s a m
      in if length ss' = 0 then (fst r, offline_for a k @ snd r)
         else ((k, ss') # fst r, snd r))"

definition disconnect :: "socket_id \<Rightarrow> socket_state \<Rightarrow> socket_state" where
  "disconnect s st =
     (let r = disconnect_loop s (socketActor st s) (connectedUsers st)
      in st\<lparr>connectedUsers := fst r, broadcasts := broadcasts st @ snd r\<rparr>)"

definition isActorOnline :: "string \<Rightarrow> string \<Rightarrow> registry \<Rightarrow> bool" where
  "isActorOnline ty ident m =
     (case map_of m (keyForActor ty ident) of None \<Rightarrow> False | Some ss \<Rightarrow> 0 < length ss)"

text \<open>A run of the server: the events arriving from the sockets, in order.\<close>

datatype socket_op = Register socket_id payload | Disconnect socket_id

fun socket_step :: "socket_state \<Rightarrow> socket_op \<Rightarrow> socket_state" where
  "socket_step st (Register s p) = register s p st"
| "socket_step st (Disconnect s) = disconnect s st"

definition initial_sockets :: socket_state where
  "initial_sockets = \<lparr>connectedUsers = [], socketActor = (\<lambda>_. None), broadcasts = []\<rparr>"

definition run_sockets :: "socket_op list \<Rightarrow> socket_state" where
  "run_sockets ops = foldl socket_step initial_sockets ops"

text \<open>What the last event of a run added to the broadcast log.\<close>

definition new_broadcasts :: "socket_op list \<Rightarrow> socket_op \<Rightarrow> presence_event list" where
  "new_broadcasts ops x =
     drop (length (broadcasts (run_sockets ops))) (broadcasts (run_sockets (ops @ [x])))"

subsection \<open>The registry as the specification describes it\<close>

text \<open>
  The specification's registry maps a principal key to the set of its live handles:
  a registration with a well-formed principal adds the handle, a malformed one is a
  no-op, and a connection that closes takes its handle away.
\<close>

fun live_step :: "(string \<Rightarrow> socket_id set) \<Rightarrow> socket_op \<Rightarrow> (string \<Rightarrow> socket_id set)" where
  "live_step L (Register s p) =
     (case actor_of_payload p of
        None \<Rightarrow> L
      | Some a \<Rightarrow> L(actorKey a := insert s (L (actorKey a))))"
| "live_step L (Disconnect s) = (\<lambda>k. L k - {s})"

definition no_handles :: "string \<Rightarrow> socket_id set" where
  "no_handles = (\<lambda>_. {})"

definition live_handles :: "socket_op list \<Rightarrow> string \<Rightarrow> socket_id set" where
  "live_handles ops = foldl live_step no_handles ops"

text \<open>The handles the code's map holds for a key.\<close>

definition handles_of :: "registry \<Rightarrow> string \<Rightarrow> socket_id set" where
  "handles_of m k = (case map_of m k of None \<Rightarrow> {} | Some ss \<Rightarrow> set ss)"

text \<open>The number of broadcasts of a run that announce the principal of key \<open>k\<close> online,
  and offline.\<close>

fun is_online_for :: "string \<Rightarrow> presence_event \<Rightarrow> bool" where
  "is_online_for k (UserOnline ty ident) = (keyForActor ty ident = k)"
| "is_online_for k (UserOffline ty ident) = False"

fun is_offline_for :: "string \<Rightarrow> presence_event \<Rightarrow> bool" where
  "is_offline_for k (UserOffline ty ident) = (keyForActor ty ident = k)"
| "is_offline_for k (UserOnline ty ident) = False"

text \<open>The zero-to-nonzero transitions of a principal's live handle count along a run.\<close>

fun online_transitions :: "(string \<Rightarrow> socket_id set) \<Rightarrow> socket_op list \<Rightarrow> string \<Rightarrow> nat" where
  "online_transitions L [] k = 0"
| "online_transitions L (x # xs) k =
     (if L k = {} \<and> live_step L x k \<noteq> {} then 1 else 0) + online_transitions (live_step L x) xs k"

subsection \<open>Principals as the specification describes them\<close>












section \<open>The chat controller and its collections\<close>

text \<open>
  Users and companies are compared through \<open>String(...)\<close> of their ObjectIds, and the
  registry keys are built from the same strings, so an actor id is a string. The \<open>_id\<close>
  of a conversation or message is a natural number drawn from a counter of the store:
  ObjectIds are distinct and grow with the time of creation, which is what the cursor of
  \<open>listMessages\<close> relies on. Dates are natural numbers. Each handler runs as one step
  on the store; a failure of the store itself (the \<open>catch\<close> branches answering 500) is
  not part of the model.
\<close>

type_synonym actor_id = string
type_synonym oid = nat
type_synonym date = nat

datatype actor_type = User | Company

text \<open>\<open>req.actor\<close>, as \<open>resolveActor\<close> sets it: the type is \<open>user\<close> or \<open>company\<close>.\<close>

record actor =
  actor_type :: actor_type
  actor_id :: actor_id

fun type_name :: "actor_type \<Rightarrow> string" where
  "type_name User = ''user''"
| "type_name Company = ''company''"

text \<open>The Conversation schema, with its defaults filled in on insertion.\<close>

record conversation =
  conv_id :: oid
  user :: actor_id
  company :: actor_id
  lastMessageAt :: date
  lastMessagePreview :: string
  userUnreadCount :: nat
  companyUnreadCount :: nat
  archivedByUser :: bool
  archivedByCompany :: bool

record attachment =
  att_url :: string
  att_type :: string
  att_name :: string
  att_size :: nat

text \<open>The Message schema; \<open>readAt = None\<close> is a document without the field.\<close>

record message =
  msg_id :: oid
  msg_conversation :: oid
  senderType :: actor_type
  senderUser :: "actor_id option"
  senderCompany :: "actor_id option"
  msg_text :: string
  attachments :: "attachment list"
  deliveredAt :: date
  readAt :: "date option"
  createdAt :: date

text \<open>The fields of the Notification schema that \<open>sendMessage\<close> fills.\<close>

record notification =
  n_userId :: "actor_id option"
  n_companyId :: "actor_id option"
  n_type :: string
  n_title :: string
  n_message :: string
  n_conversationId :: oid
  n_actionUrl :: string
  n_priority :: string
  n_expiresAt :: "date option"
  n_isRead :: bool

text \<open>The store: the three collections, the id counter, and the two profile lookups
  that \<open>sendMessage\<close> reads for the sender's name.\<close>

record chat_db =
  conversations :: "conversation list"
  messages :: "message list"
  notifications :: "notification list"
  next_oid :: oid
  userFullName :: "actor_id \<Rightarrow> string option"
  companyName :: "actor_id \<Rightarrow> string option"

datatype 'a response =
    Ok200 'a
  | Created201 'a
  | BadRequest400 string
  | Forbidden403 string
  | NotFound404 string
  | ServerError500 string

subsection \<open>JavaScript strings\<close>

text \<open>A \<open>char\<close> stands for one UTF-16 code unit below 256. The white space of
  \<open>String.prototype.trim\<close> and \<open>parseInt\<close> in that range: tab, line feed, vertical tab,
  form feed, carriage return, space and no-break space.\<close>

definition is_ws :: "char \<Rightarrow> bool" where
  "is_ws c = (of_char c \<in> {9, 10, 11, 12, 13, 32, 160 :: nat})"

definition trim :: "string \<Rightarrow> string" where
  "trim s = rev (dropWhile is_ws (rev (dropWhile is_ws s)))"

definition is_digit :: "char \<Rightarrow> bool" where
  "is_digit c = (48 \<le> (of_char c :: nat) \<and> (of_char c :: nat) \<le> 57)"

definition digits_value :: "string \<Rightarrow> nat" where
  "digits_value ds = foldl (\<lambda>acc c. 10 * acc + (of_char c - 48)) 0 ds"

text \<open>\<open>parseInt(s, 10)\<close>: leading white space, an optional sign, then the longest run of
  digits; \<open>None\<close> is NaN.\<close>

definition parseInt10 :: "string \<Rightarrow> int option" where
  "parseInt10 s =
     (let s1 = dropWhile is_ws s;
          neg = (s1 \<noteq> [] \<and> hd s1 = CHR ''-'');
          s2 = (if s1 \<noteq> [] \<and> (hd s1 = CHR ''-'' \<or> hd s1 = CHR ''+'') then tl s1 else s1);
          ds = takeWhile is_digit s2
      in if ds = [] then None
         else Some (if neg then - int (digits_value ds) else int (digits_value ds)))"

subsection \<open>Store operations\<close>

text \<open>\<open>findById\<close>, and the write of a saved or updated document over the first document
  that matches.\<close>

definition findConversation :: "oid \<Rightarrow> chat_db \<Rightarrow> conversation option" where
  "findConversation c db = find (\<lambda>cv. conv_id cv = c) (conversations db)"

fun update_first :: "('a \<Rightarrow> bool) \<Rightarrow> ('a \<Rightarrow> 'a) \<Rightarrow> 'a list \<Rightarrow> 'a list" where
  "update_first P f [] = []"
| "update_first P f (x # xs) = (if P x then f x # xs else x # update_first P f xs)"

definition saveConversation :: "conversation \<Rightarrow> chat_db \<Rightarrow> chat_db" where
  "saveConversation cv db =
     db\<lparr>conversations := update_first (\<lambda>x. conv_id x = conv_id cv) (\<lambda>_. cv) (conversations db)\<rparr>"

text \<open>The authorization test of \<open>listMessages\<close> and \<open>sendMessage\<close> (\<open>isUser || isCompany\<close>),
  and the one of \<open>markRead\<close> (\<open>isMember\<close>).\<close>

definition isUserOrCompany :: "actor \<Rightarrow> conversation \<Rightarrow> bool" where
  "isUserOrCompany a cv =
     (let isUser = (actor_type a = User \<and> user cv = actor_id a);
          isCompany = (actor_type a = Company \<and> company cv = actor_id a)
      in isUser \<or> isCompany)"

definition isMember :: "actor \<Rightarrow> conversation \<Rightarrow> bool" where
  "isMember a cv =
     (let isUser = (actor_type a = User)
      in (isUser \<and> user cv = actor_id a) \<or> (\<not> isUser \<and> company cv = actor_id a))"

subsection \<open>startConversation\<close>

text \<open>A body field that holds an id, as the handler's two tests read it: missing
  (falsy), rejected by \<open>ObjectId.isValid\<close>, or valid with the ObjectId that
  \<open>asObjectId\<close> makes of it in this call.\<close>

datatype id_field = Missing | Invalid | Valid actor_id

record start_body =
  body_userId :: id_field
  body_companyId :: id_field

text \<open>The conversation returned, with the counterparty's online flag (the two profile
  lookups of the response only read and are left out).\<close>

record started =
  started_conversation :: conversation
  started_isOnline :: bool

text \<open>\<open>findOneAndUpdate({user, company}, {$setOnInsert: {user, company},
  $set: {lastMessageAt: now}}, {upsert: true, new: true})\<close> as one atomic step.\<close>

definition upsertConversation ::
  "date \<Rightarrow> actor_id \<Rightarrow> actor_id \<Rightarrow> chat_db \<Rightarrow> conversation \<times> chat_db" where
  "upsertConversation now u c db =
     (case find (\<lambda>cv. user cv = u \<and> company cv = c) (conversations db) of
        Some cv \<Rightarrow>
          (cv\<lparr>lastMessageAt := now\<rparr>,
           db\<lparr>conversations :=
                update_first (\<lambda>cv. user cv = u \<and> company cv = c)
                  (\<lambda>cv. cv\<lparr>lastMessageAt := now\<rparr>) (conversations db)\<rparr>)
      | None \<Rightarrow>
          (let cv = \<lparr>conv_id = next_oid db, user = u, company = c, lastMessageAt = now,
                     lastMessagePreview = [], userUnreadCount = 0, companyUnreadCount = 0,
                     archivedByUser = False, archivedByCompany = False\<rparr>
           in (cv, db\<lparr>conversations := conversations db @ [cv],
                      next_oid := Suc (next_oid db)\<rparr>)))"

definition startConversation ::
  "date \<Rightarrow> actor \<Rightarrow> start_body \<Rightarrow> registry \<Rightarrow> chat_db \<Rightarrow> started response \<times> chat_db" where
  "startConversation now a body reg db =
     (let finish = (\<lambda>u c.
            let r = upsertConversation now u c db;
                convo = fst r;
                counterpartyType = (if actor_type a = User then ''company'' else ''user'');
                counterpartyId = (if actor_type a = User then company convo else user convo)
            in (Created201 \<lparr>started_conversation = convo,
                             started_isOnline = isActorOnline counterpartyType counterpartyId reg\<rparr>,
                snd r))
      in if actor_type a = User then
           (case body_companyId body of
              Missing \<Rightarrow> (BadRequest400 ''companyId required'', db)
            | Invalid \<Rightarrow> (BadRequest400 ''Invalid companyId format'', db)
            | Valid c \<Rightarrow> finish (actor_id a) c)
         else
           (case body_userId body of
              Missing \<Rightarrow> (BadRequest400 ''userId required'', db)
            | Invalid \<Rightarrow> (BadRequest400 ''Invalid userId format'', db)
            | Valid u \<Rightarrow> finish u (actor_id a)))"

text \<open>\<open>listConversations\<close>: the actor's conversations, latest \<open>lastMessageAt\<close> first (the
  enrichment of each entry only reads and is left out).\<close>

definition listConversations :: "actor \<Rightarrow> chat_db \<Rightarrow> conversation list" where
  "listConversations a db =
     rev (sort_key lastMessageAt
       (filter (\<lambda>cv. if actor_type a = User then user cv = actor_id a
                      else company cv = actor_id a) (conversations db)))"

subsection \<open>listMessages\<close>

text \<open>The \<open>cursor\<close> of the query: absent or empty, the id of a message, or a string
  on which \<open>asObjectId\<close> throws.\<close>

datatype cursor_param = NoCursor | CursorAt oid | BadCursor

record list_query =
  q_cursor :: cursor_param
  q_limit :: "string option"

text \<open>\<open>Math.min(parseInt(limit, 10) || 30, 100)\<close>, with \<open>limit = 30\<close> when the query has
  none.\<close>

definition page_limit :: "string option \<Rightarrow> int" where
  "page_limit l =
     (let parsed = (case l of None \<Rightarrow> Some 30 | Some s \<Rightarrow> parseInt10 s);
          n = (case parsed of None \<Rightarrow> 30 | Some v \<Rightarrow> if v = 0 then 30 else v)
      in min n 100)"

text \<open>\<open>Message.find(query).sort({_id: -1}).limit(lim)\<close>. The driver reads a negative
  limit as its absolute value.\<close>

definition findMessages :: "oid \<Rightarrow> cursor_param \<Rightarrow> int \<Rightarrow> chat_db \<Rightarrow> message list" where
  "findMessages c cur lim db =
     take (nat \<bar>lim\<bar>)
       (rev (sort_key msg_id
          (filter (\<lambda>m. msg_conversation m = c \<and>
                        (case cur of CursorAt k \<Rightarrow> msg_id m < k | _ \<Rightarrow> True))
             (messages db))))"

definition listMessages ::
  "actor \<Rightarrow> oid \<Rightarrow> list_query \<Rightarrow> chat_db \<Rightarrow> (message list \<times> oid option) response" where
  "listMessages a c q db =
     (case findConversation c db of
        None \<Rightarrow> NotFound404 ''Conversation not found''
      | Some convo \<Rightarrow>
          if \<not> isUserOrCompany a convo
          then Forbidden403 ''Forbidden: You are not a participant in this conversation.''
          else if q_cursor q = BadCursor then ServerError500 ''Failed to list messages''
          else
            (let found = findMessages c (q_cursor q) (page_limit (q_limit q)) db;
                 page = rev found
             in Ok200 (page, if page = [] then None else Some (msg_id (hd page)))))"

text \<open>A client that pages through a conversation: it asks again with each cursor it is
  given and puts every older page in front, until no cursor comes back.\<close>

lemma findMessages_member:
  "m \<in> set (findMessages c cur lim db) \<Longrightarrow>
   m \<in> set (messages db) \<and> msg_conversation m = c \<and>
   (case cur of CursorAt k \<Rightarrow> msg_id m < k | _ \<Rightarrow> True)"
  by (auto simp: findMessages_def dest: in_set_takeD)

lemma listMessages_cursor:
  assumes "listMessages a c q db = Ok200 (page, Some k)"
  shows "k \<in> msg_id ` set (messages db) \<and>
         (case q_cursor q of CursorAt j \<Rightarrow> k < j | _ \<Rightarrow> True)"
proof -
  let ?found = "findMessages c (q_cursor q) (page_limit (q_limit q)) db"
  from assms have pg: "page = rev ?found" and ne: "rev ?found \<noteq> []"
    and k: "k = msg_id (hd (rev ?found))"
    by (auto simp: listMessages_def Let_def split: option.splits if_splits)
  from ne have "hd (rev ?found) \<in> set ?found" by (metis hd_in_set set_rev)
  from findMessages_member [OF this] k show ?thesis by auto
qed

function fetch_all ::
  "actor \<Rightarrow> oid \<Rightarrow> string option \<Rightarrow> chat_db \<Rightarrow> cursor_param \<Rightarrow> message list" where
  "fetch_all a c l db cur =
     (case listMessages a c \<lparr>q_cursor = cur, q_limit = l\<rparr> db of
        Ok200 (page, Some k) \<Rightarrow> fetch_all a c l db (CursorAt k) @ page
      | Ok200 (page, None) \<Rightarrow> page
      | _ \<Rightarrow> [])"
  by pat_completeness auto
termination
proof (relation "measure (\<lambda>(a, c, l, db, cur).
        case cur of CursorAt j \<Rightarrow> j | _ \<Rightarrow> Suc (Max (msg_id ` set (messages db))))")
  show "wf (measure (\<lambda>(a, c, l, db, cur).
        case cur of CursorAt j \<Rightarrow> j | _ \<Rightarrow> Suc (Max (msg_id ` set (messages db)))))"
    by simp
next
  fix a c l db cur page and k :: oid and x and y
  assume "listMessages a c \<lparr>q_cursor = cur, q_limit = l\<rparr> db = Ok200 x"
    and "(page, y) = x" and "y = Some k"
  then have "listMessages a c \<lparr>q_cursor = cur, q_limit = l\<rparr> db = Ok200 (page, Some k)"
    by simp
  from listMessages_cursor [OF this]
  have mem: "k \<in> msg_id ` set (messages db)"
    and lt: "(case cur of CursorAt j \<Rightarrow> k < j | _ \<Rightarrow> True)" by simp_all
  from mem have "k \<le> Max (msg_id ` set (messages db))" by simp
  with lt show "((a, c, l, db, CursorAt k), (a, c, l, db, cur)) \<in> measure (\<lambda>(a, c, l, db, cur).
        case cur of CursorAt j \<Rightarrow> j | _ \<Rightarrow> Suc (Max (msg_id ` set (messages db))))"
    by (cases cur) auto
qed

subsection \<open>createNotification, sendMessage and markRead\<close>

text \<open>A recipient id that is \<open>undefined\<close> or the empty string is falsy.\<close>

definition falsy :: "string option \<Rightarrow> bool" where
  "falsy x = (x = None \<or> x = Some [])"

text \<open>\<open>createNotification\<close> (notificationController, lines 171--199): nothing is stored
  without a recipient; otherwise \<open>Notification.create\<close> stores one unread document. The
  socket events it emits afterwards do not touch the store.\<close>

definition createNotification :: "notification \<Rightarrow> chat_db \<Rightarrow> notification option \<times> chat_db" where
  "createNotification n db =
     (if falsy (n_userId n) \<and> falsy (n_companyId n) then (None, db)
      else (let doc = n\<lparr>n_isRead := False\<rparr>
            in (Some doc, db\<lparr>notifications := notifications db @ [doc]\<rparr>)))"

text \<open>\<open>req.body.text\<close> is \<open>None\<close> when it is absent or not a string; \<open>req.file\<close> is the
  upload that multer accepted, if any.\<close>

record upload =
  file_mimetype :: string
  file_filename :: string
  file_originalname :: string
  file_size :: nat

record send_request =
  send_text :: "string option"
  send_file :: "upload option"

text \<open>Lines 573--575: the notification's text.\<close>

definition messagePreview :: "string \<Rightarrow> string" where
  "messagePreview t =
     (if t \<noteq> [] then take 100 t @ (if length t > 100 then ''...'' else [])
      else ''Sent an attachment'')"

text \<open>Lines 565--571: the sender's name, with its fallback.\<close>

definition senderName :: "actor \<Rightarrow> chat_db \<Rightarrow> string" where
  "senderName a db =
     (if actor_type a = User
      then (case userFullName db (actor_id a) of
              None \<Rightarrow> ''A user'' | Some n \<Rightarrow> if n = [] then ''A user'' else n)
      else (case companyName db (actor_id a) of
              None \<Rightarrow> ''A company'' | Some n \<Rightarrow> if n = [] then ''A company'' else n))"

text \<open>Lines 529--591, from the save of the message on. The schema trims the text when the
  document is built; the chat events sent to the sockets do not touch the store.\<close>

definition persistMessage ::
  "actor \<Rightarrow> conversation \<Rightarrow> message \<Rightarrow> registry \<Rightarrow> chat_db \<Rightarrow> message response \<times> chat_db" where
  "persistMessage a convo payload reg db =
     (let messageDoc = payload\<lparr>msg_text := trim (msg_text payload)\<rparr>;
          db1 = db\<lparr>messages := messages db @ [messageDoc], next_oid := Suc (next_oid db)\<rparr>;
          isSenderUser = (actor_type a = User);
          convo1 = convo\<lparr>lastMessageAt := createdAt messageDoc,
                         lastMessagePreview := take 200 (msg_text messageDoc)\<rparr>;
          convo2 = (if isSenderUser
                    then convo1\<lparr>companyUnreadCount := companyUnreadCount convo1 + 1\<rparr>
                    else convo1\<lparr>userUnreadCount := userUnreadCount convo1 + 1\<rparr>);
          db2 = saveConversation convo2 db1;
          recipientId = (if isSenderUser then company convo2 else user convo2);
          recipientType = (if isSenderUser then Company else User);
          isRecipientOnline = isActorOnline (type_name recipientType) recipientId reg;
          db3 = (if \<not> isRecipientOnline
                 then snd (createNotification
                        \<lparr>n_userId = (if recipientType = User then Some recipientId else None),
                         n_companyId = (if recipientType = Company then Some recipientId else None),
                         n_type = ''message_received'',
                         n_title = ''New message from '' @ senderName a db2,
                         n_message = messagePreview (msg_text messageDoc),
                         n_conversationId = conv_id convo2,
                         n_actionUrl = (if recipientType = Company then ''/company/chat'' else ''/chat''),
                         n_priority = ''medium'',
                         n_expiresAt = None,
                         n_isRead = False\<rparr> db2)
                 else db2)
      in (Created201 messageDoc, db3))"

text \<open>\<open>sendMessage\<close>: \<open>now\<close> is the date read for \<open>deliveredAt\<close>, \<open>saved\<close> the one the
  save stamps as \<open>createdAt\<close>.\<close>

definition sendMessage ::
  "date \<Rightarrow> date \<Rightarrow> actor \<Rightarrow> oid \<Rightarrow> send_request \<Rightarrow> registry \<Rightarrow> chat_db
     \<Rightarrow> message response \<times> chat_db" where
  "sendMessage now saved a c req reg db =
     (case findConversation c db of
        None \<Rightarrow> (NotFound404 ''Conversation not found'', db)
      | Some convo \<Rightarrow>
          if \<not> isUserOrCompany a convo
          then (Forbidden403 ''Forbidden: You are not a participant in this conversation.'', db)
          else
            (let payload =
                   \<lparr>msg_id = next_oid db, msg_conversation = conv_id convo,
                    senderType = actor_type a,
                    senderUser = (if actor_type a = User then Some (actor_id a) else None),
                    senderCompany = (if actor_type a = Company then Some (actor_id a) else None),
                    msg_text = [], attachments = [], deliveredAt = now, readAt = None,
                    createdAt = saved\<rparr>
             in case send_file req of
                  Some f \<Rightarrow>
                    (let isImage = (take 6 (file_mimetype f) = ''image/'')
                     in persistMessage a convo
                          (payload\<lparr>attachments :=
                                      [\<lparr>att_url = ''/uploads/chat/'' @ file_filename f,
                                        att_type = (if isImage then ''image'' else ''file''),
                                        att_name = file_originalname f,
                                        att_size = file_size f\<rparr>],
                                   msg_text :=
                                      (case send_text req of
                                         None \<Rightarrow> []
                                       | Some t \<Rightarrow> if t \<noteq> [] then take 4000 t else [])\<rparr>)
                          reg db)
                | None \<Rightarrow>
                    (case send_text req of
                       None \<Rightarrow> (BadRequest400 ''Invalid text'', db)
                     | Some t \<Rightarrow>
                         if t = [] \<or> length t > 4000 then (BadRequest400 ''Invalid text'', db)
                         else persistMessage a convo (payload\<lparr>msg_text := trim t\<rparr>) reg db)))"

text \<open>\<open>markRead\<close>: one \<open>updateMany\<close> over the unread messages of the other side, then
  the reader's counter.\<close>

definition markRead :: "date \<Rightarrow> actor \<Rightarrow> oid \<Rightarrow> chat_db \<Rightarrow> unit response \<times> chat_db" where
  "markRead now a c db =
     (case findConversation c db of
        None \<Rightarrow> (NotFound404 ''Conversation not found'', db)
      | Some convo \<Rightarrow>
          if \<not> isMember a convo then (Forbidden403 ''Not allowed'', db)
          else
            (let isUser = (actor_type a = User);
                 other = (if isUser then Company else User);
                 db1 = db\<lparr>messages :=
                          map (\<lambda>m. if msg_conversation m = c \<and> readAt m = None \<and> senderType m = other
                                    then m\<lparr>readAt := Some now\<rparr> else m) (messages db)\<rparr>;
                 convo1 = (if isUser then convo\<lparr>userUnreadCount := 0\<rparr>
                           else convo\<lparr>companyUnreadCount := 0\<rparr>)
             in (Ok200 (), saveConversation convo1 db1)))"

subsection \<open>The conversation id of the route\<close>

text \<open>
  \<open>req.params.conversationId\<close> is any segment of the URL. \<open>findById\<close> casts it to an
  ObjectId before it queries; on a segment that is not an ObjectId the cast throws, and
  the \<open>catch\<close> of the handler answers 500 with the store untouched.
\<close>

datatype path_id = ObjectIdText oid | NotAnObjectId

definition listMessagesRoute ::
  "actor \<Rightarrow> path_id \<Rightarrow> list_query \<Rightarrow> chat_db \<Rightarrow> (message list \<times> oid option) response" where
  "listMessagesRoute a p q db =
     (case p of
        NotAnObjectId \<Rightarrow> ServerError500 ''Failed to list messages''
      | ObjectIdText c \<Rightarrow> listMessages a c q db)"

definition sendMessageRoute ::
  "date \<Rightarrow> date \<Rightarrow> actor \<Rightarrow> path_id \<Rightarrow> send_request \<Rightarrow> registry \<Rightarrow> chat_db
     \<Rightarrow> message response \<times> chat_db" where
  "sendMessageRoute now saved a p req reg db =
     (case p of
        NotAnObjectId \<Rightarrow> (ServerError500 ''Failed to send message'', db)
      | ObjectIdText c \<Rightarrow> sendMessage now saved a c req reg db)"

definition markReadRoute :: "date \<Rightarrow> actor \<Rightarrow> path_id \<Rightarrow> chat_db \<Rightarrow> unit response \<times> chat_db" where
  "markReadRoute now a p db =
     (case p of
        NotAnObjectId \<Rightarrow> (ServerError500 ''Failed to mark read'', db)
      | ObjectIdText c \<Rightarrow> markRead now a c db)"

subsection \<open>Well-formed stores\<close>

text \<open>What the store guarantees by itself: ids are distinct and grow in the order of
  creation, and the unique index on \<open>(user, company)\<close> holds.\<close>

definition wf_db :: "chat_db \<Rightarrow> bool" where
  "wf_db db =
     (sorted_wrt (<) (map msg_id (messages db)) \<and>
      list_all (\<lambda>m. msg_id m < next_oid db) (messages db) \<and>
      distinct (map conv_id (conversations db)) \<and>
      list_all (\<lambda>cv. conv_id cv < next_oid db) (conversations db) \<and>
      distinct (map (\<lambda>cv. (user cv, company cv)) (conversations db)))"

definition empty_db :: chat_db where
  "empty_db = \<lparr>conversations = [], messages = [], notifications = [], next_oid = 0,
               userFullName = (\<lambda>_. None), companyName = (\<lambda>_. None)\<rparr>"

text \<open>The principal is the conversation's user or its company.\<close>

definition is_participant :: "actor \<Rightarrow> conversation \<Rightarrow> bool" where
  "is_participant a cv =
     (case actor_type a of User \<Rightarrow> actor_id a = user cv | Company \<Rightarrow> actor_id a = company cv)"

subsection \<open>Runs of the chat handlers\<close>

text \<open>A \<open>start\<close> request names the pair \<open>(u, k)\<close> when a user \<open>u\<close> sends the company id
  \<open>k\<close>, or a company \<open>k\<close> sends the user id \<open>u\<close>; \<open>pair_row\<close> is the conversation the
  store holds for the pair, if any.\<close>

definition starts_pair :: "actor_id \<Rightarrow> actor_id \<Rightarrow> actor \<Rightarrow> start_body \<Rightarrow> bool" where
  "starts_pair u k a body =
     (case actor_type a of
        User \<Rightarrow> actor_id a = u \<and> body_companyId body = Valid k
      | Company \<Rightarrow> actor_id a = k \<and> body_userId body = Valid u)"

definition pair_row :: "actor_id \<Rightarrow> actor_id \<Rightarrow> chat_db \<Rightarrow> conversation option" where
  "pair_row u k db = find (\<lambda>x. user x = u \<and> company x = k) (conversations db)"


datatype chat_answer =
    Started "started response"
  | Sent "message response"
  | Marked "unit response"








text \<open>The messages a \<open>listMessages\<close> query with cursor \<open>cur\<close> ranges over, in the order of
  the store.\<close>

definition in_range :: "oid \<Rightarrow> cursor_param \<Rightarrow> chat_db \<Rightarrow> message list" where
  "in_range c cur db =
     filter (\<lambda>m. msg_conversation m = c \<and> (case cur of CursorAt k \<Rightarrow> msg_id m < k | _ \<Rightarrow> True))
       (messages db)"

subsection \<open>Start requests that overlap\<close>













subsection \<open>A small store for concrete runs\<close>

definition sample_conversation :: conversation where
  "sample_conversation =
     \<lparr>conv_id = 0, user = ''u1'', company = ''c1'', lastMessageAt = 5,
      lastMessagePreview = [], userUnreadCount = 0, companyUnreadCount = 0,
      archivedByUser = False, archivedByCompany = False\<rparr>"

definition sample_db :: chat_db where
  "sample_db = empty_db\<lparr>conversations := [sample_conversation], next_oid := 1\<rparr>"

definition sample_user :: actor where
  "sample_user = \<lparr>actor_type = User, actor_id = ''u1''\<rparr>"

definition sample_company :: actor where
  "sample_company = \<lparr>actor_type = Company, actor_id = ''c1''\<rparr>"

definition sample_stranger :: actor where
  "sample_stranger = \<lparr>actor_type = User, actor_id = ''u2''\<rparr>"

definition sample_upload :: upload where
  "sample_upload =
     \<lparr>file_mimetype = ''image/png'', file_filename = ''chat-1.png'',
      file_originalname = ''cat.png'', file_size = 10\<rparr>"

definition sample_message :: message where
  "sample_message =
     \<lparr>msg_id = 1, msg_conversation = 0, senderType = Company, senderUser = None,
      senderCompany = Some ''c1'', msg_text = ''welcome'', attachments = [],
      deliveredAt = 6, readAt = None, createdAt = 6\<rparr>"

definition sample_unread_db :: chat_db where
  "sample_unread_db =
     empty_db\<lparr>conversations := [sample_conversation\<lparr>userUnreadCount := 1\<rparr>],
              messages := [sample_message], next_oid := 2\<rparr>"


definition history_message :: "oid \<Rightarrow> message" where
  "history_message i =
     \<lparr>msg_id = i, msg_conversation = 0, senderType = Company, senderUser = None,
      senderCompany = Some ''c1'', msg_text = ''welcome'', attachments = [],
      deliveredAt = 6, readAt = None, createdAt = 6\<rparr>"

definition sample_history_db :: chat_db where
  "sample_history_db =
     empty_db\<lparr>conversations := [sample_conversation],
              messages := [history_message 1, history_message 2, history_message 3],
              next_oid := 4\<rparr>"

definition sample_two_db :: chat_db where
  "sample_two_db =
     empty_db\<lparr>conversations :=
                [sample_conversation,
                 sample_conversation\<lparr>conv_id := 1, company := ''c2'', lastMessageAt := 7\<rparr>],
              next_oid := 2\<rparr>"





section \<open>Registry lemmas\<close>

lemma map_of_add_to_entry:
  "map_of (add_to_entry k s m) k' =
     (if k' = k then map_option (set_add s) (map_of m k) else map_of m k')"
  by (induction m) auto

lemma map_fst_add_to_entry: "map fst (add_to_entry k s m) = map fst m"
  by (induction m) auto

lemma handles_of_add_socket:
  "handles_of (add_socket k s m) = (handles_of m)(k := insert s (handles_of m k))"
proof
  fix k'
  show "handles_of (add_socket k s m) k' = ((handles_of m)(k := insert s (handles_of m k))) k'"
    by (cases "map_of m k")
       (auto simp: handles_of_def add_socket_def map_of_add_to_entry set_add_def
             split: option.splits)
qed

lemma distinct_add_socket:
  "distinct (map fst m) \<Longrightarrow> distinct (map fst (add_socket k s m))"
  by (auto simp: add_socket_def map_fst_add_to_entry map_of_eq_None_iff)

lemma fst_disconnect_loop_keys:
  "set (map fst (fst (disconnect_loop s a m))) \<subseteq> set (map fst m)"
proof (induction m)
  case Nil
  then show ?case by simp
next
  case (Cons e m)
  obtain k ss where e: "e = (k, ss)" by (cases e)
  show ?case
  proof (cases "set_delete s ss = []")
    case True
    with Cons.IH e show ?thesis by (auto simp: Let_def)
  next
    case False
    with Cons.IH e show ?thesis by (auto simp: Let_def)
  qed
qed

lemma distinct_disconnect_loop:
  "distinct (map fst m) \<Longrightarrow> distinct (map fst (fst (disconnect_loop s a m)))"
proof (induction m)
  case Nil
  then show ?case by simp
next
  case (Cons e m)
  obtain k ss where e: "e = (k, ss)" by (cases e)
  from Cons.prems e have "k \<notin> set (map fst m)" and "distinct (map fst m)" by auto
  moreover from this fst_disconnect_loop_keys [of s a m]
  have "k \<notin> set (map fst (fst (disconnect_loop s a m)))" by blast
  ultimately show ?case using Cons.IH e by (simp add: Let_def)
qed

lemma map_of_disconnect_loop:
  "distinct (map fst m) \<Longrightarrow>
   map_of (fst (disconnect_loop s a m)) k =
     (case map_of m k of
        None \<Rightarrow> None
      | Some ss \<Rightarrow> if set_delete s ss = [] then None else Some (set_delete s ss))"
proof (induction m)
  case Nil
  then show ?case by simp
next
  case (Cons e m)
  obtain k' ss where e: "e = (k', ss)" by (cases e)
  from Cons.prems e have nk: "k' \<notin> set (map fst m)" and d: "distinct (map fst m)" by auto
  from nk fst_disconnect_loop_keys [of s a m]
  have "k' \<notin> set (map fst (fst (disconnect_loop s a m)))" by blast
  then have none: "map_of (fst (disconnect_loop s a m)) k' = None"
    by (simp add: map_of_eq_None_iff)
  show ?case using Cons.IH [OF d] e none by (simp add: Let_def)
qed

lemma set_delete_empty: "(set_delete s ss = []) = (set ss \<subseteq> {s})"
proof -
  have "(set_delete s ss = []) = (set (set_delete s ss) = {})" by simp
  also have "\<dots> = (set ss - {s} = {})" by (simp add: set_delete_def)
  finally show ?thesis by auto
qed

lemma set_set_delete: "set (set_delete s ss) = set ss - {s}"
  by (simp add: set_delete_def)

lemma handles_of_disconnect_loop:
  assumes "distinct (map fst m)"
  shows "handles_of (fst (disconnect_loop s a m)) k = handles_of m k - {s}"
proof (cases "map_of m k")
  case None
  then show ?thesis
    using map_of_disconnect_loop [OF assms, of s a k] by (simp add: handles_of_def)
next
  case (Some ss)
  show ?thesis
  proof (cases "set_delete s ss = []")
    case True
    then have "set ss \<subseteq> {s}" by (simp add: set_delete_empty)
    then show ?thesis
      using map_of_disconnect_loop [OF assms, of s a k] Some True
      by (auto simp: handles_of_def)
  next
    case False
    then show ?thesis
      using map_of_disconnect_loop [OF assms, of s a k] Some
      by (simp add: handles_of_def set_set_delete)
  qed
qed


lemma snd_disconnect_loop:
  "distinct (map fst m) \<Longrightarrow>
   snd (disconnect_loop s a m) =
     (case a of
        None \<Rightarrow> []
      | Some i \<Rightarrow>
          (case map_of m (actorKey i) of
             None \<Rightarrow> []
           | Some ss \<Rightarrow>
               if set_delete s ss = [] \<and> actorType i \<noteq> [] \<and> actorId i \<noteq> []
               then [UserOffline (actorType i) (actorId i)] else []))"
proof (induction m)
  case Nil
  then show ?case by (simp split: option.splits)
next
  case (Cons e m)
  obtain k ss where e: "e = (k, ss)" by (cases e)
  from Cons.prems e have nk: "k \<notin> set (map fst m)" and d: "distinct (map fst m)" by auto
  from nk have none: "map_of m k = None" by (simp add: map_of_eq_None_iff)
  show ?case
  proof (cases a)
    case None
    then show ?thesis using Cons.IH [OF d] e by (simp add: Let_def offline_for_def)
  next
    case (Some i)
    show ?thesis
    proof (cases "k = actorKey i")
      case True
      then show ?thesis using Cons.IH [OF d] e Some none
        by (simp add: Let_def offline_for_def)
    next
      case False
      then show ?thesis using Cons.IH [OF d] e Some
        by (simp add: Let_def offline_for_def)
    qed
  qed
qed

subsection \<open>Invariants of every run\<close>

lemma run_sockets_snoc: "run_sockets (ops @ [x]) = socket_step (run_sockets ops) x"
  by (simp add: run_sockets_def)

lemma live_handles_snoc: "live_handles (ops @ [x]) = live_step (live_handles ops) x"
  by (simp add: live_handles_def)

lemma run_distinct_keys: "distinct (map fst (connectedUsers (run_sockets ops)))"
proof (induction ops rule: rev_induct)
  case Nil
  then show ?case by (simp add: run_sockets_def initial_sockets_def)
next
  case (snoc x ops)
  show ?case
  proof (cases x)
    case (Register s p)
    with snoc show ?thesis
      by (simp add: run_sockets_snoc register_def distinct_add_socket split: option.splits)
  next
    case (Disconnect s)
    with snoc show ?thesis
      by (simp add: run_sockets_snoc disconnect_def Let_def distinct_disconnect_loop)
  qed
qed

lemma run_handles: "handles_of (connectedUsers (run_sockets ops)) = live_handles ops"
proof (induction ops rule: rev_induct)
  case Nil
  then show ?case
    by (simp add: run_sockets_def live_handles_def no_handles_def initial_sockets_def handles_of_def)
next
  case (snoc x ops)
  show ?case
  proof (cases x)
    case (Register s p)
    with snoc show ?thesis
      by (auto simp: run_sockets_snoc live_handles_snoc register_def handles_of_add_socket
               split: option.splits)
  next
    case (Disconnect s)
    have "handles_of (connectedUsers (disconnect s (run_sockets ops))) k = live_handles ops k - {s}"
      for k
      using handles_of_disconnect_loop [OF run_distinct_keys, of s _ ops k] snoc
      by (simp add: disconnect_def Let_def)
    with Disconnect show ?thesis
      by (simp add: run_sockets_snoc live_handles_snoc fun_eq_iff)
  qed
qed

lemma map_of_add_socket_nonempty:
  assumes "\<And>k ss. map_of m k = Some ss \<Longrightarrow> ss \<noteq> []"
    and "map_of (add_socket k s m) k' = Some ss"
  shows "ss \<noteq> []"
proof (cases "k' = k")
  case True
  with assms(2) show ?thesis
    by (cases "map_of m k")
       (auto simp: add_socket_def map_of_add_to_entry set_add_def split: if_splits)
next
  case False
  with assms(2) have "map_of m k' = Some ss"
    by (cases "map_of m k") (auto simp: add_socket_def map_of_add_to_entry)
  with assms(1) show ?thesis by blast
qed

lemma run_nonempty_sets:
  "map_of (connectedUsers (run_sockets ops)) k = Some ss \<Longrightarrow> ss \<noteq> []"
proof (induction ops arbitrary: k ss rule: rev_induct)
  case Nil
  then show ?case by (simp add: run_sockets_def initial_sockets_def)
next
  case (snoc x ops)
  show ?case
  proof (cases x)
    case (Register s p)
    show ?thesis
    proof (cases "actor_of_payload p")
      case None
      with snoc Register show ?thesis by (simp add: run_sockets_snoc register_def)
    next
      case (Some a)
      with snoc.prems Register
      have "map_of (add_socket (actorKey a) s (connectedUsers (run_sockets ops))) k = Some ss"
        by (simp add: run_sockets_snoc register_def)
      then show ?thesis
        using map_of_add_socket_nonempty [of "connectedUsers (run_sockets ops)"] snoc.IH
        by blast
    qed
  next
    case (Disconnect s)
    with snoc.prems show ?thesis
      using map_of_disconnect_loop [OF run_distinct_keys, of s _ ops k]
      by (auto simp: run_sockets_snoc disconnect_def Let_def split: option.splits if_splits)
  qed
qed

lemma actor_of_payload_key:
  "actor_of_payload p = Some a \<Longrightarrow>
   actorKey a = keyForActor (actorType a) (actorId a) \<and> actorType a \<noteq> []"
  by (cases p) (auto split: if_splits)

lemma run_actor_key:
  "socketActor (run_sockets ops) s = Some a \<Longrightarrow>
   actorKey a = keyForActor (actorType a) (actorId a) \<and> actorType a \<noteq> []"
proof (induction ops arbitrary: s a rule: rev_induct)
  case Nil
  then show ?case by (simp add: run_sockets_def initial_sockets_def)
next
  case (snoc x ops)
  show ?case
  proof (cases x)
    case (Register s' p)
    with snoc show ?thesis
      by (auto simp: run_sockets_snoc register_def dest: actor_of_payload_key
               split: option.splits if_splits)
  next
    case (Disconnect s')
    with snoc show ?thesis
      by (simp add: run_sockets_snoc disconnect_def Let_def)
  qed
qed



lemma broadcasts_grow:
  "broadcasts (run_sockets (ops @ [x])) = broadcasts (run_sockets ops) @ new_broadcasts ops x"
proof (cases x)
  case (Register s p)
  then show ?thesis
    by (simp add: new_broadcasts_def run_sockets_snoc register_def split: option.splits)
next
  case (Disconnect s)
  then show ?thesis
    by (simp add: new_broadcasts_def run_sockets_snoc disconnect_def Let_def)
qed

lemma new_broadcasts_register:
  "new_broadcasts ops (Register s p) =
     (case actor_of_payload p of
        None \<Rightarrow> []
      | Some a \<Rightarrow> [UserOnline (actorType a) (actorId a)])"
  by (simp add: new_broadcasts_def run_sockets_snoc register_def split: option.splits)

lemma new_broadcasts_disconnect:
  "new_broadcasts ops (Disconnect s) =
     (case socketActor (run_sockets ops) s of
        None \<Rightarrow> []
      | Some i \<Rightarrow>
          if live_handles ops (actorKey i) = {s} \<and> actorId i \<noteq> []
          then [UserOffline (actorType i) (actorId i)] else [])"
proof -
  let ?st = "run_sockets ops"
  have ev: "new_broadcasts ops (Disconnect s) =
      snd (disconnect_loop s (socketActor ?st s) (connectedUsers ?st))"
    by (simp add: new_broadcasts_def run_sockets_snoc disconnect_def Let_def)
  show ?thesis
  proof (cases "socketActor ?st s")
    case None
    then show ?thesis using ev snd_disconnect_loop [OF run_distinct_keys, of s None ops]
      by simp
  next
    case (Some i)
    note actor = Some
    from run_actor_key [OF actor] have ty: "actorType i \<noteq> []" by simp
    have live: "live_handles ops (actorKey i) = handles_of (connectedUsers ?st) (actorKey i)"
      by (simp add: run_handles)
    show ?thesis
    proof (cases "map_of (connectedUsers ?st) (actorKey i)")
      case None
      then have "live_handles ops (actorKey i) = {}" by (simp add: live handles_of_def)
      then show ?thesis
        using ev snd_disconnect_loop [OF run_distinct_keys, of s "Some i" ops] actor None
        by auto
    next
      case (Some ss)
      from run_nonempty_sets [OF Some] have ne: "ss \<noteq> []" .
      have l: "live_handles ops (actorKey i) = set ss" by (simp add: live handles_of_def Some)
      from ne have "set ss \<noteq> {}" by simp
      then have "(set ss \<subseteq> {s}) = (set ss = {s})" by (simp add: subset_singleton_iff)
      then have eq: "(set_delete s ss = []) = (live_handles ops (actorKey i) = {s})"
        by (simp add: set_delete_empty l)
      show ?thesis
        using ev snd_disconnect_loop [OF run_distinct_keys, of s "Some i" ops] actor Some ty eq
        by simp
    qed
  qed
qed






section \<open>Claims about the connection registry\<close>




text \<open>
  C1, as the claim states it, fails: a second registration for a principal that is already
  online is broadcast again. After two sockets register for user \<open>a\<close> the log holds two
  online events for the key \<open>u:a\<close>, while its live handle count went from zero to nonzero
  once.
\<close>

theorem online_rebroadcast_counterexample:
  "length (filter (is_online_for ''u:a'')
      (broadcasts (run_sockets [Register ''s1'' (PString ''a''), Register ''s2'' (PString ''a'')]))) = 2
   \<and> online_transitions no_handles
        [Register ''s1'' (PString ''a''), Register ''s2'' (PString ''a'')] ''u:a'' = 1"
  by (simp add: run_sockets_def initial_sockets_def register_def keyForActor_def no_handles_def)

text \<open>
  C1, amended. The broadcast log only grows. Every accepted registration broadcasts one
  online event with the payload's type and id, whatever the principal's handle count was;
  a rejected registration broadcasts nothing. A disconnect broadcasts no online event; it
  broadcasts no offline event for a principal that had no live handle before or keeps one
  afterwards; and when the closing socket is the only live handle of the principal it last
  registered as (with a non-empty id), exactly one offline event for that principal.
\<close>

theorem presence_broadcasts_per_event:
  "broadcasts (run_sockets (ops @ [x])) = broadcasts (run_sockets ops) @ new_broadcasts ops x
   \<and> new_broadcasts ops (Register s p) =
       (case actor_of_payload p of
          None \<Rightarrow> []
        | Some a \<Rightarrow> [UserOnline (actorType a) (actorId a)])
   \<and> filter (is_online_for k) (new_broadcasts ops (Disconnect s)) = []
   \<and> (live_handles ops k = {} \<or> live_handles (ops @ [Disconnect s]) k \<noteq> {} \<longrightarrow>
        filter (is_offline_for k) (new_broadcasts ops (Disconnect s)) = [])
   \<and> (socketActor (run_sockets ops) s = Some a \<and> actorKey a = k \<and> actorId a \<noteq> []
        \<and> live_handles ops k = {s} \<longrightarrow>
        filter (is_offline_for k) (new_broadcasts ops (Disconnect s))
          = [UserOffline (actorType a) (actorId a)])"
proof (intro conjI impI)
  show "broadcasts (run_sockets (ops @ [x])) = broadcasts (run_sockets ops) @ new_broadcasts ops x"
    by (rule broadcasts_grow)
  show "new_broadcasts ops (Register s p) =
       (case actor_of_payload p of
          None \<Rightarrow> []
        | Some a \<Rightarrow> [UserOnline (actorType a) (actorId a)])"
    by (rule new_broadcasts_register)
  show "filter (is_online_for k) (new_broadcasts ops (Disconnect s)) = []"
    by (simp add: new_broadcasts_disconnect split: option.splits)
next
  assume h: "live_handles ops k = {} \<or> live_handles (ops @ [Disconnect s]) k \<noteq> {}"
  show "filter (is_offline_for k) (new_broadcasts ops (Disconnect s)) = []"
  proof (cases "socketActor (run_sockets ops) s")
    case None
    then show ?thesis by (simp add: new_broadcasts_disconnect)
  next
    case (Some i)
    from run_actor_key [OF Some] have key: "keyForActor (actorType i) (actorId i) = actorKey i"
      by simp
    have "actorKey i \<noteq> k" if "live_handles ops (actorKey i) = {s}"
      using h that by (auto simp: live_handles_snoc)
    then show ?thesis using Some key by (auto simp: new_broadcasts_disconnect)
  qed
next
  assume h: "socketActor (run_sockets ops) s = Some a \<and> actorKey a = k \<and> actorId a \<noteq> []
        \<and> live_handles ops k = {s}"
  then have Some: "socketActor (run_sockets ops) s = Some a" by simp
  from run_actor_key [OF Some] have key: "keyForActor (actorType a) (actorId a) = actorKey a"
    by simp
  show "filter (is_offline_for k) (new_broadcasts ops (Disconnect s))
          = [UserOffline (actorType a) (actorId a)]"
    using h key by (simp add: new_broadcasts_disconnect)
qed

theorem presence_broadcasts_per_event_witness:
  "new_broadcasts [Register ''s1'' (PString ''a'')] (Register ''s2'' (PString ''a''))
     = [UserOnline ''user'' ''a'']
   \<and> live_handles [Register ''s1'' (PString ''a''), Register ''s2'' (PString ''a''),
        Disconnect ''s1''] ''u:a'' \<noteq> {}
   \<and> filter (is_offline_for ''u:a'')
        (new_broadcasts [Register ''s1'' (PString ''a''), Register ''s2'' (PString ''a'')]
           (Disconnect ''s1'')) = []
   \<and> socketActor (run_sockets [Register ''s1'' (PString ''a'')]) ''s1''
        = Some \<lparr>actorKey = ''u:a'', actorType = ''user'', actorId = ''a''\<rparr>
   \<and> live_handles [Register ''s1'' (PString ''a'')] ''u:a'' = {''s1''}
   \<and> filter (is_offline_for ''u:a'')
        (new_broadcasts [Register ''s1'' (PString ''a'')] (Disconnect ''s1''))
        = [UserOffline ''user'' ''a'']"
proof -
  let ?r1 = "Register ''s1'' (PString ''a'')"
  let ?r2 = "Register ''s2'' (PString ''a'')"
  let ?a = "\<lparr>actorKey = ''u:a'', actorType = ''user'', actorId = ''a''\<rparr>"
  have l2: "live_handles [?r1, ?r2, Disconnect ''s1''] ''u:a'' \<noteq> {}"
    by (simp add: live_handles_def no_handles_def keyForActor_def)
  have a1: "socketActor (run_sockets [?r1]) ''s1'' = Some ?a"
    by (simp add: run_sockets_def initial_sockets_def register_def keyForActor_def)
  have l1: "live_handles [?r1] ''u:a'' = {''s1''}"
    by (simp add: live_handles_def no_handles_def keyForActor_def)
  note t1 = presence_broadcasts_per_event [of "[?r1]" ?r2 "''s2''" "PString ''a''" "''u:a''" ?a]
  note t2 = presence_broadcasts_per_event [of "[?r1, ?r2]" ?r2 "''s1''" "PString ''a''" "''u:a''" ?a]
  note t3 = presence_broadcasts_per_event [of "[?r1]" ?r2 "''s1''" "PString ''a''" "''u:a''" ?a]
  have c1: "new_broadcasts [?r1] ?r2 = [UserOnline ''user'' ''a'']"
    using t1 by (simp add: keyForActor_def)
  have c2: "filter (is_offline_for ''u:a'') (new_broadcasts [?r1, ?r2] (Disconnect ''s1'')) = []"
    using t2 l2 by simp
  have c3: "filter (is_offline_for ''u:a'') (new_broadcasts [?r1] (Disconnect ''s1''))
        = [UserOffline ''user'' ''a'']"
    using t3 a1 l1 by simp
  show ?thesis using l2 a1 l1 c1 c2 c3 by blast
qed


section \<open>Chat controller lemmas\<close>

lemma findConversation_Some:
  "findConversation c db = Some cv \<Longrightarrow> conv_id cv = c \<and> cv \<in> set (conversations db)"
  by (auto simp: findConversation_def find_Some_iff)

lemma findConversation_None:
  "(findConversation c db = None) = (c \<notin> conv_id ` set (conversations db))"
  by (auto simp: findConversation_def find_None_iff)

lemma isUserOrCompany_participant: "isUserOrCompany a cv = is_participant a cv"
  by (cases "actor_type a") (auto simp: isUserOrCompany_def is_participant_def)

lemma isMember_participant: "isMember a cv = is_participant a cv"
  by (cases "actor_type a") (auto simp: isMember_def is_participant_def)

lemma find_update_first:
  "(\<And>x. P x \<Longrightarrow> P (f x)) \<Longrightarrow> find P (update_first P f xs) = map_option f (find P xs)"
  by (induction xs) auto



lemma persistMessage_fields:
  assumes "persistMessage a cv payload reg db = (r, db')"
  shows "r = Created201 (payload\<lparr>msg_text := trim (msg_text payload)\<rparr>)"
    and "messages db' = messages db @ [payload\<lparr>msg_text := trim (msg_text payload)\<rparr>]"
    and "next_oid db' = Suc (next_oid db)"
    and "conversations db' =
           update_first (\<lambda>x. conv_id x = conv_id cv)
             (\<lambda>_. cv\<lparr>lastMessageAt := createdAt payload,
                     lastMessagePreview := take 200 (trim (msg_text payload)),
                     userUnreadCount := userUnreadCount cv + (if actor_type a = User then 0 else 1),
                     companyUnreadCount := companyUnreadCount cv + (if actor_type a = User then 1 else 0)\<rparr>)
             (conversations db)"
  using assms
  by (auto simp: persistMessage_def Let_def createNotification_def saveConversation_def
           split: if_splits)



lemma sendMessage_accepted:
  assumes "findConversation c db = Some cv"
    and "sendMessage now saved a c req reg db = (Created201 m, db')"
  shows "\<exists>payload. persistMessage a cv payload reg db = (Created201 m, db') \<and>
           msg_id payload = next_oid db \<and> msg_conversation payload = c \<and>
           senderType payload = actor_type a \<and> readAt payload = None \<and>
           createdAt payload = saved \<and> deliveredAt payload = now \<and>
           is_participant a cv \<and>
           (case send_file req of
              None \<Rightarrow> (\<exists>t. send_text req = Some t \<and> t \<noteq> [] \<and> length t \<le> 4000 \<and>
                         msg_text payload = trim t \<and> attachments payload = [])
            | Some f \<Rightarrow> length (attachments payload) = 1 \<and>
                        msg_text payload =
                          (case send_text req of None \<Rightarrow> [] | Some t \<Rightarrow> take 4000 t))"
proof -
  from assms(1) have cid: "conv_id cv = c" by (simp add: findConversation_Some)
  from assms have part: "is_participant a cv"
    by (auto simp: sendMessage_def isUserOrCompany_participant split: if_splits)
  show ?thesis
  proof (cases "send_file req")
    case None
    with assms part obtain t where t: "send_text req = Some t" "t \<noteq> []" "length t \<le> 4000"
      by (auto simp: sendMessage_def isUserOrCompany_participant Let_def
               split: option.splits if_splits)
    with assms part None cid show ?thesis
      by (auto simp: sendMessage_def isUserOrCompany_participant Let_def
               intro!: exI)
  next
    case (Some f)
    with assms part cid show ?thesis
      by (auto simp: sendMessage_def isUserOrCompany_participant Let_def
               split: option.splits intro!: exI)
  qed
qed

lemma sendMessage_accepts_iff:
  assumes "findConversation c db = Some cv" and "is_participant a cv"
  shows "(\<exists>m db'. sendMessage now saved a c req reg db = (Created201 m, db')) =
         (send_file req \<noteq> None \<or>
          (\<exists>t. send_text req = Some t \<and> t \<noteq> [] \<and> length t \<le> 4000))"
  using assms
  by (auto simp: sendMessage_def isUserOrCompany_participant Let_def persistMessage_def
           split: option.splits)


lemma update_first_again:
  "P y \<Longrightarrow> update_first P (\<lambda>_. y) (update_first P (\<lambda>_. y) xs) = update_first P (\<lambda>_. y) xs"
  by (induction xs) auto

lemma markRead_accepted:
  assumes "findConversation c db = Some cv" and "is_participant a cv"
  shows "markRead now a c db =
     (Ok200 (),
      db\<lparr>messages :=
            map (\<lambda>m. if msg_conversation m = c \<and> senderType m \<noteq> actor_type a \<and> readAt m = None
                      then m\<lparr>readAt := Some now\<rparr> else m) (messages db),
         conversations :=
            update_first (\<lambda>x. conv_id x = c)
              (\<lambda>_. if actor_type a = User then cv\<lparr>userUnreadCount := 0\<rparr>
                    else cv\<lparr>companyUnreadCount := 0\<rparr>) (conversations db)\<rparr>)"
proof -
  from assms(1) have cid: "conv_id cv = c" by (simp add: findConversation_Some)
  have sc: "(s = Company) = (s \<noteq> User)" for s :: actor_type by (cases s) simp_all
  have su: "(s = User) = (s \<noteq> Company)" for s :: actor_type by (cases s) simp_all
  show ?thesis
  proof (cases "actor_type a")
    case User
    have A: "markRead now a c db =
      (Ok200 (),
       db\<lparr>messages :=
            map (\<lambda>m. if msg_conversation m = c \<and> readAt m = None \<and> senderType m = Company
                then m\<lparr>readAt := Some now\<rparr> else m) (messages db),
          conversations :=
            update_first (\<lambda>x. conv_id x = c) (\<lambda>_. cv\<lparr>userUnreadCount := 0\<rparr>)
              (conversations db)\<rparr>)"
      using assms cid User
      by (simp add: markRead_def isMember_participant Let_def saveConversation_def)
    have B: "map (\<lambda>m. if msg_conversation m = c \<and> readAt m = None \<and> senderType m = Company
                then m\<lparr>readAt := Some now\<rparr> else m) ms
        = map (\<lambda>m. if msg_conversation m = c \<and> senderType m \<noteq> User \<and> readAt m = None
                then m\<lparr>readAt := Some now\<rparr> else m) ms" for ms
      by (rule map_cong [OF refl]) (auto simp: sc)
    show ?thesis unfolding User A B by simp
  next
    case Company
    have A: "markRead now a c db =
      (Ok200 (),
       db\<lparr>messages :=
            map (\<lambda>m. if msg_conversation m = c \<and> readAt m = None \<and> senderType m = User
                then m\<lparr>readAt := Some now\<rparr> else m) (messages db),
          conversations :=
            update_first (\<lambda>x. conv_id x = c) (\<lambda>_. cv\<lparr>companyUnreadCount := 0\<rparr>)
              (conversations db)\<rparr>)"
      using assms cid Company
      by (simp add: markRead_def isMember_participant Let_def saveConversation_def)
    have B: "map (\<lambda>m. if msg_conversation m = c \<and> readAt m = None \<and> senderType m = User
                then m\<lparr>readAt := Some now\<rparr> else m) ms
        = map (\<lambda>m. if msg_conversation m = c \<and> senderType m \<noteq> Company \<and> readAt m = None
                then m\<lparr>readAt := Some now\<rparr> else m) ms" for ms
      by (rule map_cong [OF refl]) (auto simp: su)
    show ?thesis unfolding Company A B by simp
  qed
qed

lemma sendMessage_conversation_update:
  assumes "findConversation c db = Some cv"
    and "sendMessage now saved a c req reg db = (Created201 m, db')"
  shows "findConversation c db' =
     Some (cv\<lparr>lastMessageAt := saved,
              lastMessagePreview := take 200 (msg_text m),
              userUnreadCount := userUnreadCount cv + (if actor_type a = User then 0 else 1),
              companyUnreadCount := companyUnreadCount cv + (if actor_type a = User then 1 else 0)\<rparr>)"
proof -
  from assms(1) have cid: "conv_id cv = c" by (simp add: findConversation_Some)
  from sendMessage_accepted [OF assms] obtain payload
    where p: "persistMessage a cv payload reg db = (Created201 m, db')"
      and at: "createdAt payload = saved" by blast
  from persistMessage_fields(1) [OF p] have "m = payload\<lparr>msg_text := trim (msg_text payload)\<rparr>"
    by simp
  then have stored: "trim (msg_text payload) = msg_text m" by simp
  show ?thesis
    using assms(1) cid unfolding findConversation_def persistMessage_fields(4) [OF p]
    by (simp add: find_update_first at stored)
qed


lemmas eval_defs = sendMessage_def persistMessage_def findConversation_def isUserOrCompany_def
  saveConversation_def createNotification_def isActorOnline_def keyForActor_def
  messagePreview_def senderName_def falsy_def Let_def sample_db_def
  sample_conversation_def sample_user_def sample_upload_def empty_db_def


subsection \<open>Lemmas on startConversation, runs and pages\<close>

lemma update_first_set:
  assumes "find P xs = Some x"
  shows "f x \<in> set (update_first P f xs)"
    and "set (update_first P f xs) \<subseteq> insert (f x) (set xs)"
  using assms by (induction xs) (auto split: if_splits)

lemma update_first_map:
  "(\<And>x. P x \<Longrightarrow> g (f x) = g x) \<Longrightarrow> map g (update_first P f xs) = map g xs"
  by (induction xs) auto


lemma update_first_others:
  "filter (\<lambda>x. \<not> P x) (update_first P f xs) = filter (\<lambda>x. \<not> P x) xs" if "\<And>x. P x \<Longrightarrow> P (f x)"
  using that by (induction xs) auto

lemma startConversation_existing:
  assumes "pair_row u k db = Some cv" and "starts_pair u k a body"
  shows "startConversation now a body reg db =
     (Created201 \<lparr>started_conversation = cv\<lparr>lastMessageAt := now\<rparr>,
                  started_isOnline =
                    isActorOnline (if actor_type a = User then ''company'' else ''user'')
                      (if actor_type a = User then k else u) reg\<rparr>,
      db\<lparr>conversations :=
           update_first (\<lambda>x. user x = u \<and> company x = k) (\<lambda>x. x\<lparr>lastMessageAt := now\<rparr>)
             (conversations db)\<rparr>)"
proof -
  from assms(1) have uk: "user cv = u" "company cv = k"
    by (auto simp: pair_row_def find_Some_iff)
  show ?thesis
  proof (cases "actor_type a")
    case User
    with assms uk show ?thesis
      by (simp add: startConversation_def upsertConversation_def starts_pair_def pair_row_def Let_def)
  next
    case Company
    with assms uk show ?thesis
      by (simp add: startConversation_def upsertConversation_def starts_pair_def pair_row_def Let_def)
  qed
qed


lemma sorted_le_last: "sorted xs \<Longrightarrow> x \<in> set xs \<Longrightarrow> x \<le> last xs"
  by (induction xs) auto

lemma sort_key_last_max:
  assumes "y \<in> set xs" and "\<And>x. x \<in> set xs \<Longrightarrow> x \<noteq> y \<Longrightarrow> f x < f y"
  shows "hd (rev (sort_key f xs)) = y"
proof -
  let ?S = "sort_key f xs"
  from assms(1) have "set ?S \<noteq> {}" by auto
  then have ne: "?S \<noteq> []" by (simp only: set_empty not_False_eq_True)
  then have hd: "hd (rev ?S) = last ?S" by (simp add: hd_rev)
  have mem: "last ?S \<in> set xs" using ne last_in_set [of ?S] by simp
  have "sorted (map f ?S)" by simp
  moreover have "f y \<in> set (map f ?S)" using assms(1) by simp
  ultimately have "f y \<le> last (map f ?S)" by (rule sorted_le_last)
  then have "f y \<le> f (last ?S)" using ne by (simp add: last_map)
  with assms(2) [OF mem] have "last ?S = y" by (cases "last ?S = y") auto
  with hd show ?thesis by simp
qed






























lemma in_range_sorted:
  assumes "wf_db db"
  shows "sorted_wrt (\<lambda>x y. msg_id x < msg_id y) (in_range c cur db)"
proof -
  from assms have "sorted_wrt (\<lambda>x y. msg_id x < msg_id y) (messages db)"
    by (simp add: wf_db_def sorted_wrt_map)
  then show ?thesis unfolding in_range_def by (rule sorted_wrt_filter)
qed

lemma page_limit_nonzero: "page_limit l \<noteq> 0"
  by (auto simp: page_limit_def Let_def split: option.splits)

lemma rev_findMessages:
  assumes "wf_db db"
  shows "rev (findMessages c cur lim db) =
           drop (length (in_range c cur db) - nat \<bar>lim\<bar>) (in_range c cur db)"
proof -
  let ?T = "in_range c cur db"
  from in_range_sorted [OF assms, of c cur] have "sorted_wrt (<) (map msg_id ?T)"
    by (simp add: sorted_wrt_map)
  then have "sorted (map msg_id ?T)" by (simp add: strict_sorted_iff)
  then have "sort_key msg_id ?T = ?T" by (rule sort_key_id_if_sorted)
  then have "findMessages c cur lim db = take (nat \<bar>lim\<bar>) (rev ?T)"
    by (simp add: findMessages_def in_range_def)
  then show ?thesis by (simp add: rev_take)
qed

lemma listMessages_page:
  assumes "wf_db db" and "findConversation c db = Some cv" and "is_participant a cv"
    and "cur \<noteq> BadCursor"
  shows "listMessages a c \<lparr>q_cursor = cur, q_limit = l\<rparr> db =
     (let page = drop (length (in_range c cur db) - nat \<bar>page_limit l\<bar>) (in_range c cur db)
      in Ok200 (page, if page = [] then None else Some (msg_id (hd page))))"
  using assms(2-4)
  by (simp add: listMessages_def isUserOrCompany_participant Let_def rev_findMessages [OF assms(1)]
           del: rev_is_Nil_conv)

lemma filter_below_nth:
  assumes "sorted_wrt (\<lambda>x y. f x < f y) xs" and "i < length xs"
  shows "filter (\<lambda>x. f x < (f (xs ! i) :: nat)) xs = take i xs"
  using assms
proof (induction xs arbitrary: i)
  case Nil
  then show ?case by simp
next
  case (Cons x xs)
  show ?case
  proof (cases i)
    case 0
    from Cons.prems(1) have "\<forall>y\<in>set xs. \<not> f y < f x" by auto
    then have "filter (\<lambda>y. f y < f x) xs = []" by (simp add: filter_empty_conv)
    with 0 show ?thesis by simp
  next
    case (Suc j)
    with Cons.prems have j: "j < length xs" and s: "sorted_wrt (\<lambda>x y. f x < f y) xs" by auto
    from Cons.prems(1) j have "f x < f (xs ! j)" by auto
    with Cons.IH [OF s j] Suc show ?thesis by simp
  qed
qed

lemma in_range_below:
  assumes "m \<in> set (in_range c cur db)"
  shows "in_range c (CursorAt (msg_id m)) db
           = filter (\<lambda>x. msg_id x < msg_id m) (in_range c cur db)"
proof -
  from assms have b: "case cur of CursorAt k \<Rightarrow> msg_id m < k | _ \<Rightarrow> True"
    by (simp add: in_range_def)
  show ?thesis
    unfolding in_range_def filter_filter
    by (rule filter_cong [OF refl]) (use b in \<open>cases cur; auto\<close>)
qed

lemma fetch_all_in_range:
  assumes "wf_db db" and "findConversation c db = Some cv" and "is_participant a cv"
  shows "cur \<noteq> BadCursor \<Longrightarrow> fetch_all a c l db cur = in_range c cur db"
  using assms
proof (induction a c l db cur rule: fetch_all.induct)
  case (1 a c l db cur)
  let ?T = "in_range c cur db"
  let ?i = "length ?T - nat \<bar>page_limit l\<bar>"
  let ?page = "drop ?i ?T"
  have lm: "listMessages a c \<lparr>q_cursor = cur, q_limit = l\<rparr> db =
      Ok200 (?page, if ?page = [] then None else Some (msg_id (hd ?page)))"
    using listMessages_page [OF "1.prems"(2,3,4,1), of l] by (simp add: Let_def)
  show ?case
  proof (cases "?T = []")
    case True
    then show ?thesis by (subst fetch_all.simps) (simp add: lm)
  next
    case False
    have "0 < nat \<bar>page_limit l\<bar>" using page_limit_nonzero [of l] by simp
    with False have i: "?i < length ?T" by simp
    then have ne: "?page \<noteq> []" by simp
    from i have hd: "hd ?page = ?T ! ?i" by (simp add: hd_drop_conv_nth)
    from i have mem: "?T ! ?i \<in> set ?T" by simp
    have lm': "listMessages a c \<lparr>q_cursor = cur, q_limit = l\<rparr> db =
        Ok200 (?page, Some (msg_id (?T ! ?i)))"
      using lm ne hd by simp
    have "fetch_all a c l db (CursorAt (msg_id (?T ! ?i))) = in_range c (CursorAt (msg_id (?T ! ?i))) db"
      by (rule "1.IH" [OF lm' refl refl]) (use "1.prems" in simp_all)
    also have "\<dots> = filter (\<lambda>x. msg_id x < msg_id (?T ! ?i)) ?T"
      by (rule in_range_below [OF mem])
    also have "\<dots> = take ?i ?T"
      by (rule filter_below_nth [OF in_range_sorted [OF "1.prems"(2)] i])
    finally have older: "fetch_all a c l db (CursorAt (msg_id (?T ! ?i))) = take ?i ?T" .
    have "fetch_all a c l db cur = fetch_all a c l db (CursorAt (msg_id (?T ! ?i))) @ ?page"
      by (subst fetch_all.simps) (simp add: lm')
    with older show ?thesis by simp
  qed
qed

lemma wf_sample_history_db: "wf_db sample_history_db"
  by (simp add: wf_db_def sample_history_db_def history_message_def sample_conversation_def
        empty_db_def)


subsection \<open>Lemmas on start requests, in sequence and overlapping\<close>















section \<open>Claims about the chat controller\<close>

text \<open>
  C9. The claim asks for not-found whenever the conversation id matches no conversation.
  An id of the route that is not an ObjectId matches none, and the three handlers answer
  it with 500: the cast inside \<open>findById\<close> throws before the test for a missing
  conversation is reached. \<open>startConversation\<close> does test the ids of its body with
  \<open>ObjectId.isValid\<close> before it uses them, and the application's error handler reads a
  cast error as a fault of the request, not of the server.
\<close>

theorem malformed_conversation_id_answers_500:
  "listMessagesRoute sample_user NotAnObjectId \<lparr>q_cursor = NoCursor, q_limit = None\<rparr> sample_db
     = ServerError500 ''Failed to list messages''
   \<and> sendMessageRoute 8 9 sample_user NotAnObjectId
        \<lparr>send_text = Some ''hello'', send_file = None\<rparr> [] sample_db
     = (ServerError500 ''Failed to send message'', sample_db)
   \<and> markReadRoute 9 sample_user NotAnObjectId sample_db
     = (ServerError500 ''Failed to mark read'', sample_db)"
  by (simp add: listMessagesRoute_def sendMessageRoute_def markReadRoute_def)

text \<open>
  For an id that is an ObjectId the handlers answer as the claim says: not-found when no
  conversation of the store carries it, and forbidden for a principal that is neither
  the conversation's user nor its company; in both cases the store comes back as it was
  and the answer carries no message.
\<close>

lemma conversation_access_checks:
  "(c \<notin> conv_id ` set (conversations db) \<longrightarrow>
      listMessages a c q db = NotFound404 ''Conversation not found'' \<and>
      sendMessage now saved a c req reg db = (NotFound404 ''Conversation not found'', db) \<and>
      markRead now a c db = (NotFound404 ''Conversation not found'', db))
   \<and> (findConversation c db = Some cv \<and> \<not> is_participant a cv \<longrightarrow>
      listMessages a c q db =
        Forbidden403 ''Forbidden: You are not a participant in this conversation.'' \<and>
      sendMessage now saved a c req reg db =
        (Forbidden403 ''Forbidden: You are not a participant in this conversation.'', db) \<and>
      markRead now a c db = (Forbidden403 ''Not allowed'', db))"
proof (intro conjI impI)
  assume "c \<notin> conv_id ` set (conversations db)"
  then have none: "findConversation c db = None" by (simp add: findConversation_None)
  show "listMessages a c q db = NotFound404 ''Conversation not found''"
    by (simp add: listMessages_def none)
  show "sendMessage now saved a c req reg db = (NotFound404 ''Conversation not found'', db)"
    by (simp add: sendMessage_def none)
  show "markRead now a c db = (NotFound404 ''Conversation not found'', db)"
    by (simp add: markRead_def none)
next
  assume h: "findConversation c db = Some cv \<and> \<not> is_participant a cv"
  show "listMessages a c q db =
        Forbidden403 ''Forbidden: You are not a participant in this conversation.''"
    using h by (simp add: listMessages_def isUserOrCompany_participant)
  show "sendMessage now saved a c req reg db =
        (Forbidden403 ''Forbidden: You are not a participant in this conversation.'', db)"
    using h by (simp add: sendMessage_def isUserOrCompany_participant)
  show "markRead now a c db = (Forbidden403 ''Not allowed'', db)"
    using h by (simp add: markRead_def isMember_participant)
qed

lemma conversation_access_checks_example:
  "7 \<notin> conv_id ` set (conversations sample_db)
   \<and> listMessages sample_user 7 \<lparr>q_cursor = NoCursor, q_limit = None\<rparr> sample_db
       = NotFound404 ''Conversation not found''
   \<and> markRead 9 sample_user 7 sample_db = (NotFound404 ''Conversation not found'', sample_db)
   \<and> findConversation 0 sample_db = Some sample_conversation
   \<and> \<not> is_participant sample_stranger sample_conversation
   \<and> sendMessage 8 9 sample_stranger 0 \<lparr>send_text = Some ''hello'', send_file = None\<rparr> [] sample_db
       = (Forbidden403 ''Forbidden: You are not a participant in this conversation.'', sample_db)
   \<and> markRead 9 sample_stranger 0 sample_db = (Forbidden403 ''Not allowed'', sample_db)"
proof -
  have h1: "7 \<notin> conv_id ` set (conversations sample_db)"
    by (simp add: sample_db_def sample_conversation_def)
  have h2: "findConversation 0 sample_db = Some sample_conversation"
    by (simp add: findConversation_def sample_db_def sample_conversation_def)
  have h3: "\<not> is_participant sample_stranger sample_conversation"
    by (simp add: is_participant_def sample_stranger_def sample_conversation_def)
  note t1 = conversation_access_checks [of 7 sample_db sample_user
      "\<lparr>q_cursor = NoCursor, q_limit = None\<rparr>" 9 9 "\<lparr>send_text = None, send_file = None\<rparr>" "[]"
      sample_conversation]
  note t2 = conversation_access_checks [of 0 sample_db sample_stranger
      "\<lparr>q_cursor = NoCursor, q_limit = None\<rparr>" 9 9 "\<lparr>send_text = Some ''hello'', send_file = None\<rparr>" "[]"
      sample_conversation]
  note t3 = conversation_access_checks [of 0 sample_db sample_stranger
      "\<lparr>q_cursor = NoCursor, q_limit = None\<rparr>" 8 9 "\<lparr>send_text = Some ''hello'', send_file = None\<rparr>" "[]"
      sample_conversation]
  show ?thesis using h1 h2 h3 t1 t2 t3 by blast
qed


text \<open>
  C8. The claim asks that an input without an attachment whose text is empty after trimming
  is rejected before anything is stored. The handler tests the text before it trims it:
  a text of three spaces passes the test, and a message with an empty text and no
  attachment is stored and counted as unread.
\<close>

theorem blank_text_is_accepted:
  "fst (sendMessage 8 9 sample_user 0 \<lparr>send_text = Some ''   '', send_file = None\<rparr> [] sample_db)
     = Created201 \<lparr>msg_id = 1, msg_conversation = 0, senderType = User,
         senderUser = Some ''u1'', senderCompany = None, msg_text = [], attachments = [],
         deliveredAt = 8, readAt = None, createdAt = 9\<rparr>
   \<and> map msg_text (messages (snd (sendMessage 8 9 sample_user 0
         \<lparr>send_text = Some ''   '', send_file = None\<rparr> [] sample_db))) = [[]]
   \<and> map companyUnreadCount (conversations (snd (sendMessage 8 9 sample_user 0
         \<lparr>send_text = Some ''   '', send_file = None\<rparr> [] sample_db))) = [1]"
  by (simp add: eval_defs trim_def is_ws_def)

text \<open>
  C4. The claim asks for a placeholder as the preview of a message that has an attachment
  and no text. The handler stores the first 200 characters of the message's text, which
  is empty here; the placeholder appears only in the notification built further down.
\<close>

theorem attachment_only_preview_is_empty:
  "fst (sendMessage 8 9 sample_user 0 \<lparr>send_text = None, send_file = Some sample_upload\<rparr> [] sample_db)
     = Created201 \<lparr>msg_id = 1, msg_conversation = 0, senderType = User,
         senderUser = Some ''u1'', senderCompany = None, msg_text = [],
         attachments = [\<lparr>att_url = ''/uploads/chat/chat-1.png'', att_type = ''image'',
                         att_name = ''cat.png'', att_size = 10\<rparr>],
         deliveredAt = 8, readAt = None, createdAt = 9\<rparr>
   \<and> map lastMessagePreview (conversations (snd (sendMessage 8 9 sample_user 0
         \<lparr>send_text = None, send_file = Some sample_upload\<rparr> [] sample_db))) = [[]]
   \<and> map n_message (notifications (snd (sendMessage 8 9 sample_user 0
         \<lparr>send_text = None, send_file = Some sample_upload\<rparr> [] sample_db)))
       = [''Sent an attachment'']"
  by (simp add: eval_defs trim_def is_ws_def)

text \<open>
  C5. \<open>markRead\<close> by a participant of an existing conversation answers 200; in one pass it
  stamps \<open>readAt\<close> on exactly the messages of that conversation that the other side
  sent and that had no \<open>readAt\<close>; it sets the reader's unread counter to zero and leaves
  the rest of the conversation, the other conversations and the notifications as they
  were; and a second \<open>markRead\<close>, at any later date, gives back the same store.
\<close>

theorem markRead_batch_idempotent:
  assumes "findConversation c db = Some cv" and "is_participant a cv"
    and "markRead t1 a c db = (r, db1)"
  shows "r = Ok200 ()
    \<and> messages db1 =
        map (\<lambda>m. if msg_conversation m = c \<and> senderType m \<noteq> actor_type a \<and> readAt m = None
                  then m\<lparr>readAt := Some t1\<rparr> else m) (messages db)
    \<and> findConversation c db1 =
        Some (if actor_type a = User then cv\<lparr>userUnreadCount := 0\<rparr>
              else cv\<lparr>companyUnreadCount := 0\<rparr>)
    \<and> filter (\<lambda>x. conv_id x \<noteq> c) (conversations db1)
        = filter (\<lambda>x. conv_id x \<noteq> c) (conversations db)
    \<and> notifications db1 = notifications db
    \<and> markRead t2 a c db1 = (Ok200 (), db1)"
proof -
  let ?cv1 = "if actor_type a = User then cv\<lparr>userUnreadCount := 0\<rparr>
              else cv\<lparr>companyUnreadCount := 0\<rparr>"
  let ?stamp = "\<lambda>t m. if msg_conversation m = c \<and> senderType m \<noteq> actor_type a \<and> readAt m = None
                  then m\<lparr>readAt := Some t\<rparr> else m"
  from assms(1) have cid: "conv_id cv = c" by (simp add: findConversation_Some)
  then have cid1: "conv_id ?cv1 = c" by simp
  from assms(3) markRead_accepted [OF assms(1,2), of t1]
  have r: "r = Ok200 ()"
    and db1: "db1 = db\<lparr>messages := map (?stamp t1) (messages db),
         conversations := update_first (\<lambda>x. conv_id x = c) (\<lambda>_. ?cv1) (conversations db)\<rparr>"
    by simp_all
  have f1: "findConversation c db1 = Some ?cv1"
    using assms(1) cid1 unfolding db1 findConversation_def
    by (simp add: find_update_first del: if_split cong: if_cong)
  have part1: "is_participant a ?cv1"
    using assms(2) by (simp add: is_participant_def split: actor_type.splits)
  have again: "?cv1 = (if actor_type a = User then ?cv1\<lparr>userUnreadCount := 0\<rparr>
              else ?cv1\<lparr>companyUnreadCount := 0\<rparr>)" by simp
  have stamp2: "map (?stamp t2) (map (?stamp t1) ms) = map (?stamp t1) ms" for ms
    by (induction ms) auto
  have others: "filter (\<lambda>x. conv_id x \<noteq> c) (update_first (\<lambda>x. conv_id x = c) (\<lambda>_. ?cv1) xs)
      = filter (\<lambda>x. conv_id x \<noteq> c) xs" for xs
    using cid1 by (induction xs) (auto simp del: if_split cong: if_cong)
  have "markRead t2 a c db1 = (Ok200 (), db1)"
    unfolding markRead_accepted [OF f1 part1, of t2]
    using cid1 by (simp add: db1 stamp2 update_first_again del: if_split cong: if_cong)
  with r db1 f1 others show ?thesis by simp
qed


theorem markRead_batch_idempotent_witness:
  "findConversation 0 sample_unread_db = Some (sample_conversation\<lparr>userUnreadCount := 1\<rparr>)
   \<and> is_participant sample_user (sample_conversation\<lparr>userUnreadCount := 1\<rparr>)
   \<and> messages (snd (markRead 9 sample_user 0 sample_unread_db))
       = [sample_message\<lparr>readAt := Some 9\<rparr>]
   \<and> findConversation 0 (snd (markRead 9 sample_user 0 sample_unread_db))
       = Some (sample_conversation\<lparr>userUnreadCount := 0\<rparr>)
   \<and> markRead 12 sample_user 0 (snd (markRead 9 sample_user 0 sample_unread_db))
       = (Ok200 (), snd (markRead 9 sample_user 0 sample_unread_db))"
proof -
  let ?cv = "sample_conversation\<lparr>userUnreadCount := 1\<rparr>"
  let ?r = "markRead 9 sample_user 0 sample_unread_db"
  have h1: "findConversation 0 sample_unread_db = Some ?cv"
    by (simp add: findConversation_def sample_unread_db_def sample_conversation_def)
  have h2: "is_participant sample_user ?cv"
    by (simp add: is_participant_def sample_user_def sample_conversation_def)
  have h3: "?r = (fst ?r, snd ?r)" by simp
  have u: "actor_type sample_user = User" by (simp add: sample_user_def)
  have ms: "messages sample_unread_db = [sample_message]"
    by (simp add: sample_unread_db_def)
  have sm: "msg_conversation sample_message = 0" "senderType sample_message = Company"
    "readAt sample_message = None"
    by (simp_all add: sample_message_def)
  note t = markRead_batch_idempotent [OF h1 h2 h3, of 12]
  from t have "messages (snd ?r) = [sample_message\<lparr>readAt := Some 9\<rparr>]"
    by (simp add: u ms sm)
  moreover from t have "findConversation 0 (snd ?r) = Some (sample_conversation\<lparr>userUnreadCount := 0\<rparr>)"
    by (simp add: u)
  moreover from t have "markRead 12 sample_user 0 (snd ?r) = (Ok200 (), snd ?r)" by simp
  ultimately show ?thesis using h1 h2 by blast
qed









text \<open>
  C10. A \<open>start\<close> request for a pair whose conversation exists answers with that
  conversation, its \<open>lastMessageAt\<close> set to the current date and every other field as it
  was; the row of the pair is replaced by it, the rows of other pairs, the messages, the
  notifications and the id counter stay as they were. When the date is later than every
  \<open>lastMessageAt\<close> of the store, the conversation moves to the head of both
  participants' conversation lists.
\<close>

theorem startConversation_touches_existing:
  assumes "pair_row u k db = Some cv" and "starts_pair u k a body"
    and "startConversation now a body reg db = (r, db')"
  shows "(\<exists>s. r = Created201 s \<and> started_conversation s = cv\<lparr>lastMessageAt := now\<rparr>)
    \<and> pair_row u k db' = Some (cv\<lparr>lastMessageAt := now\<rparr>)
    \<and> filter (\<lambda>x. \<not> (user x = u \<and> company x = k)) (conversations db')
        = filter (\<lambda>x. \<not> (user x = u \<and> company x = k)) (conversations db)
    \<and> length (conversations db') = length (conversations db)
    \<and> messages db' = messages db
    \<and> notifications db' = notifications db
    \<and> next_oid db' = next_oid db
    \<and> (list_all (\<lambda>x. lastMessageAt x < now) (conversations db) \<longrightarrow>
         hd (listConversations \<lparr>actor_type = User, actor_id = u\<rparr> db') = cv\<lparr>lastMessageAt := now\<rparr> \<and>
         hd (listConversations \<lparr>actor_type = Company, actor_id = k\<rparr> db') = cv\<lparr>lastMessageAt := now\<rparr>)"
proof -
  let ?P = "\<lambda>x. user x = u \<and> company x = k"
  let ?f = "\<lambda>x. x\<lparr>lastMessageAt := now\<rparr>"
  let ?cv = "cv\<lparr>lastMessageAt := now\<rparr>"
  from assms(1) have found: "find ?P (conversations db) = Some cv"
    and uk: "user cv = u" "company cv = k"
    by (auto simp: pair_row_def find_Some_iff)
  from assms(3) startConversation_existing [OF assms(1,2), of now reg]
  have r: "\<exists>s. r = Created201 s \<and> started_conversation s = ?cv"
    and db': "db' = db\<lparr>conversations := update_first ?P ?f (conversations db)\<rparr>"
    by auto
  have row: "pair_row u k db' = Some ?cv"
    unfolding pair_row_def db' using found by (simp add: find_update_first)
  have "filter (\<lambda>x. \<not> ?P x) (update_first ?P ?f xs) = filter (\<lambda>x. \<not> ?P x) xs" for xs
    by (rule update_first_others) simp
  then have others:
    "filter (\<lambda>x. \<not> ?P x) (conversations db') = filter (\<lambda>x. \<not> ?P x) (conversations db)"
    unfolding db' by simp
  have len: "length (conversations db') = length (conversations db)"
    using update_first_map [of ?P "\<lambda>_. ()" ?f "conversations db"]
    unfolding db' by (simp add: map_replicate_const)
  have mem: "?cv \<in> set (conversations db')"
    and sub: "set (conversations db') \<subseteq> insert ?cv (set (conversations db))"
    unfolding db' using update_first_set [OF found, of ?f] by simp_all
  have first: "hd (listConversations \<lparr>actor_type = User, actor_id = u\<rparr> db') = ?cv \<and>
         hd (listConversations \<lparr>actor_type = Company, actor_id = k\<rparr> db') = ?cv"
    if old: "list_all (\<lambda>x. lastMessageAt x < now) (conversations db)"
  proof -
    have lt: "lastMessageAt x < lastMessageAt ?cv"
      if "x \<in> set (conversations db')" "x \<noteq> ?cv" for x
      using that sub old by (auto simp: list_all_iff)
    have "hd (rev (sort_key lastMessageAt (filter (\<lambda>x. user x = u) (conversations db')))) = ?cv"
      by (rule sort_key_last_max) (use mem uk lt in auto)
    moreover
    have "hd (rev (sort_key lastMessageAt (filter (\<lambda>x. company x = k) (conversations db')))) = ?cv"
      by (rule sort_key_last_max) (use mem uk lt in auto)
    ultimately show ?thesis by (simp add: listConversations_def)
  qed
  show ?thesis using r row others len first by (simp add: db')
qed

theorem startConversation_touches_existing_witness:
  "pair_row ''u1'' ''c1'' sample_two_db = Some sample_conversation
   \<and> starts_pair ''u1'' ''c1'' sample_user \<lparr>body_userId = Missing, body_companyId = Valid ''c1''\<rparr>
   \<and> list_all (\<lambda>x. lastMessageAt x < 9) (conversations sample_two_db)
   \<and> map conv_id (listConversations sample_user sample_two_db) = [1, 0]
   \<and> hd (listConversations \<lparr>actor_type = User, actor_id = ''u1''\<rparr>
         (snd (startConversation 9 sample_user
            \<lparr>body_userId = Missing, body_companyId = Valid ''c1''\<rparr> [] sample_two_db)))
       = sample_conversation\<lparr>lastMessageAt := 9\<rparr>
   \<and> pair_row ''u1'' ''c1'' (snd (startConversation 9 sample_user
            \<lparr>body_userId = Missing, body_companyId = Valid ''c1''\<rparr> [] sample_two_db))
       = Some (sample_conversation\<lparr>lastMessageAt := 9\<rparr>)"
proof -
  let ?body = "\<lparr>body_userId = Missing, body_companyId = Valid ''c1''\<rparr>"
  let ?r = "startConversation 9 sample_user ?body [] sample_two_db"
  have h1: "pair_row ''u1'' ''c1'' sample_two_db = Some sample_conversation"
    by (simp add: pair_row_def sample_two_db_def sample_conversation_def)
  have h2: "starts_pair ''u1'' ''c1'' sample_user ?body"
    by (simp add: starts_pair_def sample_user_def)
  have h3: "?r = (fst ?r, snd ?r)" by simp
  have old: "list_all (\<lambda>x. lastMessageAt x < 9) (conversations sample_two_db)"
    by (simp add: sample_two_db_def sample_conversation_def)
  have before: "map conv_id (listConversations sample_user sample_two_db) = [1, 0]"
    by (simp add: listConversations_def sample_two_db_def sample_conversation_def sample_user_def)
  from startConversation_touches_existing [OF h1 h2 h3] old h1 h2 before
  show ?thesis by blast
qed

text \<open>
  C7, as the claim states it, fails for the limit \<open>0\<close>: \<open>parseInt\<close> gives 0, which is
  falsy, so the default 30 applies and a message is returned although \<open>min(0, 100) = 0\<close>.
\<close>

theorem page_size_zero_counterexample:
  "parseInt10 ''0'' = Some 0
   \<and> listMessages sample_user 0 \<lparr>q_cursor = NoCursor, q_limit = Some ''0''\<rparr> sample_unread_db
       = Ok200 ([sample_message], Some 1)
   \<and> \<not> int (length [sample_message]) \<le> min 0 100"
  by (simp add: parseInt10_def is_ws_def is_digit_def digits_value_def Let_def
        listMessages_def findConversation_def isUserOrCompany_def findMessages_def page_limit_def
        sample_unread_db_def sample_conversation_def sample_user_def sample_message_def empty_db_def)

text \<open>
  C7, amended. For a participant of an existing conversation in a well-formed store,
  \<open>listMessages\<close> answers 200 with a page and a cursor. The page is the most recent end
  of the conversation's messages below the cursor, in the order of the store (ascending
  ids, the order of creation); the cursor is the id of the oldest message of the page, or
  none for an empty page. The page has at most 30 messages when no limit is given or the
  limit parses to 0 or to no number, and at most \<open>min(n, 100)\<close> for a limit that parses to
  a positive \<open>n\<close>. Asking again with each cursor returned, for any fixed limit, and
  putting the older pages in front gives the conversation's whole history, each message
  once and in order.
\<close>

theorem listMessages_pagination:
  assumes "wf_db db" and "findConversation c db = Some cv" and "is_participant a cv"
  shows "(cur \<noteq> BadCursor \<longrightarrow>
           (\<exists>page older.
              listMessages a c \<lparr>q_cursor = cur, q_limit = l\<rparr> db
                = Ok200 (page, if page = [] then None else Some (msg_id (hd page)))
              \<and> in_range c cur db = older @ page
              \<and> sorted_wrt (\<lambda>x y. msg_id x < msg_id y) page
              \<and> (l = None \<longrightarrow> length page \<le> 30)
              \<and> (\<forall>s n. l = Some s \<and> parseInt10 s = Some n \<and> 0 < n \<longrightarrow>
                    int (length page) \<le> min n 100)
              \<and> (\<forall>s. l = Some s \<and> (parseInt10 s = None \<or> parseInt10 s = Some 0) \<longrightarrow>
                    length page \<le> 30)))
       \<and> fetch_all a c l db NoCursor = filter (\<lambda>m. msg_conversation m = c) (messages db)"
proof (intro conjI impI)
  assume cur: "cur \<noteq> BadCursor"
  let ?T = "in_range c cur db"
  let ?L = "nat \<bar>page_limit l\<bar>"
  let ?page = "drop (length ?T - ?L) ?T"
  have lm: "listMessages a c \<lparr>q_cursor = cur, q_limit = l\<rparr> db
                = Ok200 (?page, if ?page = [] then None else Some (msg_id (hd ?page)))"
    using listMessages_page [OF assms cur, of l] by (simp add: Let_def)
  have split: "?T = take (length ?T - ?L) ?T @ ?page" by simp
  have srt: "sorted_wrt (\<lambda>x y. msg_id x < msg_id y) ?page"
    using in_range_sorted [OF assms(1), of c cur] by (rule sorted_wrt_drop)
  have len: "length ?page \<le> ?L" by simp
  have b1: "length ?page \<le> 30" if "l = None"
    using len that by (simp add: page_limit_def)
  have b2: "int (length ?page) \<le> min n 100" if "l = Some s" "parseInt10 s = Some n" "0 < n" for s n
  proof -
    from that have "int ?L = min n 100" by (simp add: page_limit_def Let_def)
    moreover from len have "int (length ?page) \<le> int ?L" by (simp only: of_nat_le_iff)
    ultimately show ?thesis by (simp only:)
  qed
  have b3: "length ?page \<le> 30" if "l = Some s" "parseInt10 s = None \<or> parseInt10 s = Some 0" for s
    using len that by (auto simp: page_limit_def Let_def)
  show "\<exists>page older.
              listMessages a c \<lparr>q_cursor = cur, q_limit = l\<rparr> db
                = Ok200 (page, if page = [] then None else Some (msg_id (hd page)))
              \<and> in_range c cur db = older @ page
              \<and> sorted_wrt (\<lambda>x y. msg_id x < msg_id y) page
              \<and> (l = None \<longrightarrow> length page \<le> 30)
              \<and> (\<forall>s n. l = Some s \<and> parseInt10 s = Some n \<and> 0 < n \<longrightarrow>
                    int (length page) \<le> min n 100)
              \<and> (\<forall>s. l = Some s \<and> (parseInt10 s = None \<or> parseInt10 s = Some 0) \<longrightarrow>
                    length page \<le> 30)"
    using lm split srt b1 b2 b3 by blast
next
  have "fetch_all a c l db NoCursor = in_range c NoCursor db"
    by (rule fetch_all_in_range [OF assms]) simp
  then show "fetch_all a c l db NoCursor = filter (\<lambda>m. msg_conversation m = c) (messages db)"
    by (simp add: in_range_def)
qed

theorem listMessages_pagination_witness:
  "wf_db sample_history_db
   \<and> findConversation 0 sample_history_db = Some sample_conversation
   \<and> is_participant sample_user sample_conversation
   \<and> parseInt10 ''2'' = Some 2
   \<and> listMessages sample_user 0 \<lparr>q_cursor = NoCursor, q_limit = Some ''2''\<rparr> sample_history_db
       = Ok200 ([history_message 2, history_message 3], Some 2)
   \<and> listMessages sample_user 0 \<lparr>q_cursor = CursorAt 2, q_limit = Some ''2''\<rparr> sample_history_db
       = Ok200 ([history_message 1], Some 1)
   \<and> fetch_all sample_user 0 (Some ''2'') sample_history_db NoCursor
       = [history_message 1, history_message 2, history_message 3]"
proof -
  have h2: "findConversation 0 sample_history_db = Some sample_conversation"
    by (simp add: findConversation_def sample_history_db_def sample_conversation_def)
  have h3: "is_participant sample_user sample_conversation"
    by (simp add: is_participant_def sample_user_def sample_conversation_def)
  have p: "parseInt10 ''2'' = Some 2"
    by (simp add: parseInt10_def is_ws_def is_digit_def digits_value_def Let_def)
  have lim: "page_limit (Some ''2'') = 2" by (simp add: page_limit_def p)
  have hm: "msg_conversation (history_message i) = 0" "msg_id (history_message i) = i" for i
    by (simp_all add: history_message_def)
  have ms: "messages sample_history_db = [history_message 1, history_message 2, history_message 3]"
    by (simp add: sample_history_db_def)
  have r1: "in_range 0 NoCursor sample_history_db
      = [history_message 1, history_message 2, history_message 3]"
    by (simp add: in_range_def ms hm)
  have r2: "in_range 0 (CursorAt 2) sample_history_db = [history_message 1]"
    by (simp add: in_range_def ms hm)
  have l1: "listMessages sample_user 0 \<lparr>q_cursor = NoCursor, q_limit = Some ''2''\<rparr> sample_history_db
       = Ok200 ([history_message 2, history_message 3], Some 2)"
    using listMessages_page [OF wf_sample_history_db h2 h3, of NoCursor "Some ''2''"]
    by (simp add: r1 lim hm)
  have l2: "listMessages sample_user 0 \<lparr>q_cursor = CursorAt 2, q_limit = Some ''2''\<rparr> sample_history_db
       = Ok200 ([history_message 1], Some 1)"
    using listMessages_page [OF wf_sample_history_db h2 h3, of "CursorAt 2" "Some ''2''"]
    by (simp add: r2 lim hm)
  from listMessages_pagination [OF wf_sample_history_db h2 h3, of NoCursor "Some ''2''"]
  have "fetch_all sample_user 0 (Some ''2'') sample_history_db NoCursor
       = [history_message 1, history_message 2, history_message 3]"
    by (simp add: ms hm)
  with wf_sample_history_db h2 h3 p l1 l2 show ?thesis by blast
qed

end
